theory Spec2Isabelle
  imports Main "HOL-Library.Sublist"
begin

section \<open>Strings\<close>

text \<open>
  A JavaScript string is a sequence of UTF-16 code units. The model uses \<^typ>\<open>string\<close>,
  one \<^typ>\<open>char\<close> per code unit, which covers the code units below 256 (ASCII and the
  Latin-1 supplement); \<open>length\<close> is the \<open>.length\<close> of the source.
\<close>

definition ascii_upper :: string where
  "ascii_upper = ''ABCDEFGHIJKLMNOPQRSTUVWXYZ''"

definition ascii_lower :: string where
  "ascii_lower = ''abcdefghijklmnopqrstuvwxyz''"

definition ascii_digits :: string where
  "ascii_digits = ''0123456789''"

text \<open>
  The letters of the Latin-1 supplement: upper case from 0xC0 to 0xDE without the
  multiplication sign 0xD7, lower case 0x20 above each.
\<close>

definition latin1_upper :: string where
  "latin1_upper =
     [CHR 0xC0, CHR 0xC1, CHR 0xC2, CHR 0xC3, CHR 0xC4, CHR 0xC5, CHR 0xC6, CHR 0xC7,
      CHR 0xC8, CHR 0xC9, CHR 0xCA, CHR 0xCB, CHR 0xCC, CHR 0xCD, CHR 0xCE, CHR 0xCF,
      CHR 0xD0, CHR 0xD1, CHR 0xD2, CHR 0xD3, CHR 0xD4, CHR 0xD5, CHR 0xD6,
      CHR 0xD8, CHR 0xD9, CHR 0xDA, CHR 0xDB, CHR 0xDC, CHR 0xDD, CHR 0xDE]"

definition latin1_lower :: string where
  "latin1_lower =
     [CHR 0xE0, CHR 0xE1, CHR 0xE2, CHR 0xE3, CHR 0xE4, CHR 0xE5, CHR 0xE6, CHR 0xE7,
      CHR 0xE8, CHR 0xE9, CHR 0xEA, CHR 0xEB, CHR 0xEC, CHR 0xED, CHR 0xEE, CHR 0xEF,
      CHR 0xF0, CHR 0xF1, CHR 0xF2, CHR 0xF3, CHR 0xF4, CHR 0xF5, CHR 0xF6,
      CHR 0xF8, CHR 0xF9, CHR 0xFA, CHR 0xFB, CHR 0xFC, CHR 0xFD, CHR 0xFE]"

text \<open>The classes \<open>[0-9]\<close>, \<open>[A-Z]\<close> and \<open>[a-z]\<close> of a regular expression.\<close>

definition is_digit :: "char \<Rightarrow> bool" where
  "is_digit c = (c \<in> set ascii_digits)"

definition is_upper :: "char \<Rightarrow> bool" where
  "is_upper c = (c \<in> set ascii_upper)"

definition is_lower :: "char \<Rightarrow> bool" where
  "is_lower c = (c \<in> set ascii_lower)"

text \<open>The class \<open>\w\<close> of a regular expression: \<open>[A-Za-z0-9_]\<close>.\<close>

definition is_word :: "char \<Rightarrow> bool" where
  "is_word c = (is_upper c \<or> is_lower c \<or> is_digit c \<or> c = CHR ''_'')"

text \<open>
  The class \<open>\s\<close>, which is also what \<open>trim\<close> removes: tab, line feed, vertical tab,
  form feed, carriage return, space and the no-break space (the white space and line
  terminators below code unit 256).
\<close>

definition is_space :: "char \<Rightarrow> bool" where
  "is_space c =
     (c \<in> set [CHR 0x09, CHR 0x0A, CHR 0x0B, CHR 0x0C, CHR 0x0D, CHR 0x20, CHR 0xA0])"

text \<open>
  \<open>toLowerCase\<close> on one code unit: an upper-case letter becomes its lower-case letter,
  anything else stays.
\<close>

definition toLowerCase_char :: "char \<Rightarrow> char" where
  "toLowerCase_char c =
     (if c \<in> set ascii_upper
      then (case map_of (zip ascii_upper ascii_lower) c of Some l \<Rightarrow> l | None \<Rightarrow> c)
      else if c \<in> set latin1_upper
      then (case map_of (zip latin1_upper latin1_lower) c of Some l \<Rightarrow> l | None \<Rightarrow> c)
      else c)"

definition toLowerCase :: "string \<Rightarrow> string" where
  "toLowerCase s = map toLowerCase_char s"

text \<open>
  Case folding of a regular expression with the \<open>i\<close> flag and without the \<open>u\<close> flag
  (the Canonicalize operation): a code unit is replaced by its upper case, except that a
  code unit from 128 on is never folded onto an ASCII one. The patterns below only hold
  ASCII characters, against which only the ASCII letters fold.
\<close>

definition canonicalize :: "char \<Rightarrow> char" where
  "canonicalize c =
     (if c \<in> set ascii_lower
      then (case map_of (zip ascii_lower ascii_upper) c of Some u \<Rightarrow> u | None \<Rightarrow> c)
      else c)"

text \<open>\<open>s.trim()\<close>\<close>

definition trim :: "string \<Rightarrow> string" where
  "trim s = rev (dropWhile is_space (rev (dropWhile is_space s)))"

text \<open>
  \<open>s.substring(a, b)\<close>: both indices are clamped to \<open>0..length\<close> and swapped when
  \<open>a > b\<close>.
\<close>

definition substring :: "string \<Rightarrow> int \<Rightarrow> int \<Rightarrow> string" where
  "substring s a b =
     (let len = int (length s);
          a' = min (max a 0) len;
          b' = min (max b 0) len;
          lo = min a' b';
          hi = max a' b'
      in take (nat (hi - lo)) (drop (nat lo) s))"

text \<open>\<open>s.lastIndexOf(c)\<close> for a one-character search string: \<open>-1\<close> when absent.\<close>

primrec lastIndexOf_from :: "string \<Rightarrow> char \<Rightarrow> int \<Rightarrow> int \<Rightarrow> int" where
  "lastIndexOf_from [] c i found = found"
| "lastIndexOf_from (x # xs) c i found =
     lastIndexOf_from xs c (i + 1) (if x = c then i else found)"

definition lastIndexOf :: "string \<Rightarrow> char \<Rightarrow> int" where
  "lastIndexOf s c = lastIndexOf_from s c 0 (- 1)"

text \<open>\<open>s.includes(t)\<close>: \<open>t\<close> occurs in \<open>s\<close> as a contiguous run.\<close>

primrec includes_str :: "string \<Rightarrow> string \<Rightarrow> bool" where
  "includes_str [] t = (t = [])"
| "includes_str (c # cs) t = (prefix t (c # cs) \<or> includes_str cs t)"

section \<open>Text normalizer\<close>

text \<open>
  \<open>normalizeText\<close> (App.tsx, lines 11 to 15). The argument is optional in the source;
  an absent or empty text gives the empty string. The class \<open>[^a-z0-9]\<close> under the \<open>i\<close>
  flag leaves the ASCII letters of both cases and the digits.
\<close>

definition is_alnum_ci :: "char \<Rightarrow> bool" where
  "is_alnum_ci c = (is_lower c \<or> is_upper c \<or> is_digit c)"

definition normalizeText :: "string option \<Rightarrow> string" where
  "normalizeText text =
     (case text of
        None \<Rightarrow> []
      | Some t \<Rightarrow> if t = [] then [] else filter is_alnum_ci (toLowerCase t))"

section \<open>Filename sanitizer\<close>

text \<open>
  \<open>name.replace(/\.webp$/i, '')\<close>: the search tries every start position from the left;
  at a position the pattern matches when the rest of the string is \<open>.webp\<close> up to case.
  The match, if any, reaches the end of the string and is replaced by nothing.
\<close>

definition matches_dot_webp :: "string \<Rightarrow> bool" where
  "matches_dot_webp s = (map canonicalize s = ''.WEBP'')"

primrec replace_webp_suffix :: "string \<Rightarrow> string" where
  "replace_webp_suffix [] = []"
| "replace_webp_suffix (c # cs) =
     (if matches_dot_webp (c # cs) then [] else c # replace_webp_suffix cs)"

text \<open>
  \<open>replace(/[^\w.-]/gi, '_')\<close>: every character that is not a word character, a dot or a
  hyphen becomes an underscore. The class holds the letters of both cases, so the \<open>i\<close>
  flag adds nothing.
\<close>

definition is_unsafe :: "char \<Rightarrow> bool" where
  "is_unsafe c = (\<not> (is_word c \<or> c = CHR ''.'' \<or> c = CHR ''-''))"

definition replace_unsafe :: "string \<Rightarrow> string" where
  "replace_unsafe s = map (\<lambda>c. if is_unsafe c then CHR ''_'' else c) s"

text \<open>
  \<open>replace(/\s+/g, '_')\<close>: scanning from the left, each maximal run of white space is
  replaced by one underscore.
\<close>

function replace_space_runs :: "string \<Rightarrow> string" where
  "replace_space_runs [] = []"
| "replace_space_runs (c # cs) =
     (if is_space c then CHR ''_'' # replace_space_runs (dropWhile is_space cs)
      else c # replace_space_runs cs)"
  by pat_completeness auto
termination
  by (relation "measure length") (auto simp: less_Suc_eq_le length_dropWhile_le)

text \<open>
  \<open>replace(/[_.-]+$/, '')\<close>: the leftmost position from which only separators follow up
  to the end of the string starts the match.
\<close>

definition is_sep :: "char \<Rightarrow> bool" where
  "is_sep c = (c = CHR ''_'' \<or> c = CHR ''.'' \<or> c = CHR ''-'')"

primrec replace_trailing_seps :: "string \<Rightarrow> string" where
  "replace_trailing_seps [] = []"
| "replace_trailing_seps (c # cs) =
     (if list_all is_sep (c # cs) then [] else c # replace_trailing_seps cs)"

text \<open>\<open>replace(/^[_.-]+/, '')\<close>: the run of separators at the start is removed.\<close>

primrec replace_leading_seps :: "string \<Rightarrow> string" where
  "replace_leading_seps [] = []"
| "replace_leading_seps (c # cs) =
     (if is_sep c then replace_leading_seps cs else c # cs)"

text \<open>
  \<open>sanitizeFilename\<close> (App.tsx, lines 66 to 75). \<open>maxLength\<close> is an integer here; the
  source's defaults are \<open>'renamed_image'\<close> and \<open>50\<close>.
\<close>

definition sanitizeFilename :: "string \<Rightarrow> string \<Rightarrow> int \<Rightarrow> string" where
  "sanitizeFilename name fallbackName maxLength =
     (let saneName1 = replace_webp_suffix name;
          saneName2 = replace_unsafe saneName1;
          saneName3 = replace_space_runs saneName2;
          saneName4 = (if int (length saneName3) > maxLength
                       then substring saneName3 0 maxLength else saneName3);
          saneName5 = replace_leading_seps (replace_trailing_seps saneName4)
      in if saneName5 = [] then fallbackName else saneName5)"

definition default_maxLength :: int where
  "default_maxLength = 50"

subsection \<open>The sanitizer as the specification words it\<close>

text \<open>
  Each step of section 4.3 of the specification, written from its words, to be compared
  with the source's steps above.
\<close>

definition spec_strip_suffix :: "string \<Rightarrow> string" where
  "spec_strip_suffix s =
     (if suffix ''.webp'' (toLowerCase s) then take (length s - 5) s else s)"

definition spec_safe_chars :: "char set" where
  "spec_safe_chars =
     set ''ABCDEFGHIJKLMNOPQRSTUVWXYZabcdefghijklmnopqrstuvwxyz0123456789_.-''"

definition spec_replace_outside :: "string \<Rightarrow> string" where
  "spec_replace_outside s = map (\<lambda>c. if c \<in> spec_safe_chars then c else CHR ''_'') s"

fun spec_collapse_from :: "bool \<Rightarrow> string \<Rightarrow> string" where
  "spec_collapse_from in_run [] = []"
| "spec_collapse_from in_run (c # cs) =
     (if is_space c
      then (if in_run then spec_collapse_from True cs
            else CHR ''_'' # spec_collapse_from True cs)
      else c # spec_collapse_from False cs)"

definition spec_collapse_spaces :: "string \<Rightarrow> string" where
  "spec_collapse_spaces s = spec_collapse_from False s"

definition spec_truncate :: "int \<Rightarrow> string \<Rightarrow> string" where
  "spec_truncate maxLength s = take (nat maxLength) s"

definition spec_trim_chars :: "char set" where
  "spec_trim_chars = {CHR ''_'', CHR ''.'', CHR ''-''}"

definition spec_trim_seps :: "string \<Rightarrow> string" where
  "spec_trim_seps s =
     rev (dropWhile (\<lambda>c. c \<in> spec_trim_chars) (rev (dropWhile (\<lambda>c. c \<in> spec_trim_chars) s)))"

definition spec_sanitize_steps :: "string \<Rightarrow> int \<Rightarrow> string" where
  "spec_sanitize_steps name maxLength =
     spec_trim_seps (spec_truncate maxLength
       (spec_collapse_spaces (spec_replace_outside (spec_strip_suffix name))))"

section \<open>Matcher\<close>

record FilenameMappingEntry =
  gameName :: string
  imsGameCode :: string
  provider :: "string option"

text \<open>
  \<open>replace(/^[0-9]+x[0-9]+-/, '')\<close>: the pattern can only match at the start. Neither
  \<open>x\<close> nor \<open>-\<close> is a digit, so each greedy run of digits is the whole run and
  backtracking into it cannot succeed.
\<close>

definition match_dimension_prefix :: "string \<Rightarrow> string option" where
  "match_dimension_prefix s =
     (let w = takeWhile is_digit s; r1 = dropWhile is_digit s in
      if w = [] then None
      else (case r1 of
              [] \<Rightarrow> None
            | c1 # r2 \<Rightarrow>
                if c1 \<noteq> CHR ''x'' then None
                else (let h = takeWhile is_digit r2; r3 = dropWhile is_digit r2 in
                      if h = [] then None
                      else (case r3 of
                              [] \<Rightarrow> None
                            | c2 # r4 \<Rightarrow> if c2 = CHR ''-'' then Some r4 else None))))"

definition replace_dimension_prefix :: "string \<Rightarrow> string" where
  "replace_dimension_prefix s =
     (case match_dimension_prefix s of None \<Rightarrow> s | Some rest \<Rightarrow> rest)"

text \<open>
  \<open>name.substring(0, name.lastIndexOf('.')) || name\<close>: the name up to its last dot, or
  the whole name when that is empty (lines 130 and 303).
\<close>

definition stem_or_whole :: "string \<Rightarrow> string" where
  "stem_or_whole name =
     (let stem = substring name 0 (lastIndexOf name (CHR ''.''))
      in if stem = [] then name else stem)"

text \<open>
  \<open>filenameGamePart\<close> (App.tsx, lines 130 and 131): the name up to its last dot, or the
  whole name when that is empty, without the dimension prefix.
\<close>

definition filenameGamePart :: "string \<Rightarrow> string" where
  "filenameGamePart originalFilename =
     replace_dimension_prefix (stem_or_whole originalFilename)"

text \<open>
  The score of one mapping entry (App.tsx, lines 143 to 171), with the successive
  assignments to \<open>currentScore\<close> kept in their order.
\<close>

definition currentScore :: "string \<Rightarrow> string \<Rightarrow> string \<Rightarrow> nat" where
  "currentScore normalizedOcr normalizedFilename normalizedMappingGameName =
     (let s0 = 0;
          s1 = (if normalizedOcr \<noteq> [] \<and> includes_str normalizedMappingGameName normalizedOcr
                then max s0 (20 + length normalizedOcr) else s0);
          s2 = (if normalizedOcr \<noteq> [] \<and> includes_str normalizedOcr normalizedMappingGameName
                then max s1 (20 + length normalizedMappingGameName) else s1);
          s3 = (if normalizedFilename \<noteq> []
                     \<and> includes_str normalizedMappingGameName normalizedFilename
                then max s2 (10 + length normalizedFilename) else s2);
          s4 = (if normalizedFilename \<noteq> []
                     \<and> includes_str normalizedFilename normalizedMappingGameName
                then max s3 (10 + length normalizedMappingGameName) else s3)
      in s4)"

text \<open>
  One pass of the \<open>for\<close> loop over the mappings (lines 139 to 177); the state is the pair
  of \<open>bestMatch\<close> and \<open>highestScore\<close>, and \<open>continue\<close> leaves it as it is.
\<close>

definition loop_body ::
  "string \<Rightarrow> string \<Rightarrow> FilenameMappingEntry option \<times> nat \<Rightarrow> FilenameMappingEntry
     \<Rightarrow> FilenameMappingEntry option \<times> nat" where
  "loop_body normalizedOcr normalizedFilename st mapping =
     (let normalizedMappingGameName = normalizeText (Some (gameName mapping)) in
      if normalizedMappingGameName = [] then st
      else (let cs = currentScore normalizedOcr normalizedFilename normalizedMappingGameName
            in if cs > snd st then (Some mapping, cs) else st))"

text \<open>\<open>findMatchingGame\<close> (App.tsx, lines 124 to 179); \<open>ocrText\<close> may be \<open>null\<close>.\<close>

definition normalizedOcr_of :: "string option \<Rightarrow> string" where
  "normalizedOcr_of ocrText =
     normalizeText (Some (case ocrText of None \<Rightarrow> [] | Some t \<Rightarrow> t))"

definition normalizedFilename_of :: "string \<Rightarrow> string" where
  "normalizedFilename_of originalFilename =
     normalizeText (Some (filenameGamePart originalFilename))"

definition findMatchingGame ::
  "string option \<Rightarrow> string \<Rightarrow> FilenameMappingEntry list \<Rightarrow> FilenameMappingEntry option" where
  "findMatchingGame ocrText originalFilename mappings =
     fst (foldl (loop_body (normalizedOcr_of ocrText) (normalizedFilename_of originalFilename))
            (None, 0) mappings)"

subsection \<open>The scoring and the selection as the specification words them\<close>

text \<open>
  Section 4.2 of the specification: four containment checks, each worth its own value
  when it fires and nothing otherwise; an entry scores the greatest of the four.
\<close>

definition spec_check :: "bool \<Rightarrow> nat \<Rightarrow> nat" where
  "spec_check fires worth = (if fires then worth else 0)"

definition spec_score :: "string \<Rightarrow> string \<Rightarrow> string \<Rightarrow> nat" where
  "spec_score ocr fname m =
     Max {spec_check (ocr \<noteq> [] \<and> includes_str m ocr) (20 + length ocr),
          spec_check (includes_str ocr m) (20 + length m),
          spec_check (fname \<noteq> [] \<and> includes_str m fname) (10 + length fname),
          spec_check (includes_str fname m) (10 + length m)}"

definition has_name :: "FilenameMappingEntry \<Rightarrow> bool" where
  "has_name m = (normalizeText (Some (gameName m)) \<noteq> [])"

definition spec_select_step ::
  "string \<Rightarrow> string \<Rightarrow> FilenameMappingEntry option \<times> nat \<Rightarrow> FilenameMappingEntry
     \<Rightarrow> FilenameMappingEntry option \<times> nat" where
  "spec_select_step ocr fname st m =
     (if spec_score ocr fname (normalizeText (Some (gameName m))) > snd st
      then (Some m, spec_score ocr fname (normalizeText (Some (gameName m))))
      else st)"

text \<open>
  The score the loop gives an entry, a skipped entry counting as 0: the quantity the
  selection is stated over.
\<close>

definition entry_score :: "string \<Rightarrow> string \<Rightarrow> FilenameMappingEntry \<Rightarrow> nat" where
  "entry_score ocr fname m =
     (let nm = normalizeText (Some (gameName m))
      in if nm = [] then 0 else currentScore ocr fname nm)"

text \<open>
  What the loop has established after a prefix \<open>ms\<close> of the mappings: the state holds the
  greatest score so far and the first entry that reached it.
\<close>

definition sel_inv :: "(FilenameMappingEntry \<Rightarrow> nat) \<Rightarrow> FilenameMappingEntry list
   \<Rightarrow> FilenameMappingEntry option \<times> nat \<Rightarrow> bool" where
  "sel_inv sc ms st =
    ((\<forall>j<length ms. sc (ms ! j) \<le> snd st) \<and>
     (fst st = None \<longrightarrow> snd st = 0) \<and>
     (\<forall>m. fst st = Some m \<longrightarrow>
        0 < snd st \<and> (\<exists>i<length ms. ms ! i = m \<and> sc m = snd st \<and> (\<forall>j<i. sc (ms ! j) < snd st))))"

section \<open>Items\<close>

datatype ImageProcessingStatus =
  Queued | Processing | Ocr_extracting | Name_matching | Completed | Error
  | Api_key_missing | Mapping_parse_error

datatype ImageType = Portrait | Landscape | Standard

text \<open>
  The id of an item is the string \<open>`${Date.now()}-${index}-${file.name}`\<close>. The two numbers
  are printed in decimal and contain no hyphen, so the string determines the triple and
  the model keeps the triple.
\<close>

type_synonym image_id = "nat \<times> nat \<times> string"

text \<open>
  \<open>ProcessedImage\<close> (types.ts). The fields \<open>file\<close> and \<open>previewUrl\<close> are never changed and
  are always present; they only travel to the OCR service, the archive and the page, and
  are left out.
\<close>

record ProcessedImage =
  id_img :: image_id
  originalName :: string
  status :: ImageProcessingStatus
  ocrText :: "string option"
  suggestedName :: "string option"
  errorMessage :: "string option"
  gameProvider :: "string option"
  imageType :: "ImageType option"
  width :: "nat option"
  height :: "nat option"

text \<open>An optional string counts as true when it is present and not empty.\<close>

definition truthy :: "string option \<Rightarrow> bool" where
  "truthy x = (case x of None \<Rightarrow> False | Some t \<Rightarrow> t \<noteq> [])"

text \<open>\<open>x || d\<close> on an optional string.\<close>

definition or_else :: "string option \<Rightarrow> string \<Rightarrow> string" where
  "or_else x d = (case x of None \<Rightarrow> d | Some t \<Rightarrow> if t = [] then d else t)"

definition NO_TEXT_DETECTED_MARKER :: string where
  "NO_TEXT_DETECTED_MARKER = ''NO_TEXT_DETECTED''"

text \<open>
  \<open>getImageMetadata\<close> (App.tsx, lines 17 to 38): the argument is the size the browser
  decoded, or nothing when decoding failed and the promise is rejected.
\<close>

definition classify_image :: "nat \<Rightarrow> nat \<Rightarrow> ImageType" where
  "classify_image w h =
     (if w = 500 \<and> h = 693 then Portrait
      else if w = 500 \<and> h = 333 then Landscape
      else Standard)"

definition getImageMetadata :: "(nat \<times> nat) option \<Rightarrow> (nat \<times> nat \<times> ImageType) option" where
  "getImageMetadata decoded =
     (case decoded of None \<Rightarrow> None | Some (w, h) \<Rightarrow> Some (w, h, classify_image w h))"

text \<open>
  A selected file: its name, the value of \<open>Date.now()\<close> read once its metadata promise
  has settled, and the decoded size.
\<close>

record uploaded_file =
  file_name :: string
  loaded_at :: nat
  decoded_size :: "(nat \<times> nat) option"

text \<open>
  The item built for one file (\<open>handleFilesSelected\<close>, lines 259 to 288); \<open>apiKeyAtCall\<close> is
  the key the handler saw when it was called.
\<close>

definition new_image :: "string option \<Rightarrow> nat \<Rightarrow> uploaded_file \<Rightarrow> ProcessedImage" where
  "new_image apiKeyAtCall index f =
     (case getImageMetadata (decoded_size f) of
        Some (w, h, t) \<Rightarrow>
          \<lparr>id_img = (loaded_at f, index, file_name f),
           originalName = file_name f,
           status = (if truthy apiKeyAtCall then Queued else Api_key_missing),
           ocrText = None,
           suggestedName = None,
           errorMessage = (if truthy apiKeyAtCall then None else Some ''API Key is missing.''),
           gameProvider = None,
           imageType = Some t,
           width = Some w,
           height = Some h\<rparr>
      | None \<Rightarrow>
          \<lparr>id_img = (loaded_at f, index, file_name f),
           originalName = file_name f,
           status = Error,
           ocrText = None,
           suggestedName = None,
           errorMessage = Some ''Could not read image dimensions.'',
           gameProvider = None,
           imageType = Some Standard,
           width = None,
           height = None\<rparr>)"

definition new_images :: "string option \<Rightarrow> uploaded_file list \<Rightarrow> ProcessedImage list" where
  "new_images apiKeyAtCall files =
     map (\<lambda>(index, f). new_image apiKeyAtCall index f) (zip [0 ..< length files] files)"

section \<open>Archive paths\<close>

text \<open>
  The path of one item in the archive (\<open>createAndDownloadZip\<close>, lines 413 to 430); an item
  without a suggested name gets no entry.
\<close>

definition subfolder_of :: "ImageType option \<Rightarrow> string" where
  "subfolder_of t =
     (if t = Some Portrait then ''portrait/''
      else if t = Some Landscape then ''landscape/''
      else [])"

definition filePathInZip :: "ProcessedImage \<Rightarrow> string option" where
  "filePathInZip imageInfo =
     (case suggestedName imageInfo of
        None \<Rightarrow> None
      | Some name \<Rightarrow>
          if name = [] then None
          else (case gameProvider imageInfo of
                  None \<Rightarrow> Some name
                | Some p \<Rightarrow>
                    if p \<noteq> [] \<and> trim p \<noteq> []
                    then Some (sanitizeFilename p ''default_provider'' default_maxLength
                               @ ''/'' @ subfolder_of (imageType imageInfo) @ name)
                    else Some name))"

definition completedImages :: "ProcessedImage list \<Rightarrow> ProcessedImage list" where
  "completedImages imgs =
     filter (\<lambda>img. status img = Completed \<and> truthy (suggestedName img)) imgs"

definition zip_paths :: "ProcessedImage list \<Rightarrow> string list" where
  "zip_paths imgs = List.map_filter filePathInZip (completedImages imgs)"

section \<open>Mapping table\<close>

definition MAPPING_COL_GAME_NAME :: string where
  "MAPPING_COL_GAME_NAME = ''Name''"

definition MAPPING_COL_IMS_CODE :: string where
  "MAPPING_COL_IMS_CODE = ''IMS Game Code''"

definition MAPPING_COL_PROVIDER :: string where
  "MAPPING_COL_PROVIDER = ''Game Provider''"

text \<open>\<open>s.split(sep)\<close> for a one-character separator: at least one piece.\<close>

fun split_on :: "char \<Rightarrow> string \<Rightarrow> string list" where
  "split_on sep [] = [[]]"
| "split_on sep (c # cs) =
     (if c = sep then [] # split_on sep cs
      else (case split_on sep cs of
              [] \<Rightarrow> [[c]]
            | x # xs \<Rightarrow> (c # x) # xs))"

text \<open>\<open>xs.indexOf(x)\<close>: the first position, or \<open>-1\<close>.\<close>

primrec indexOf_from :: "'a list \<Rightarrow> 'a \<Rightarrow> int \<Rightarrow> int" where
  "indexOf_from [] x i = - 1"
| "indexOf_from (y # ys) x i = (if y = x then i else indexOf_from ys x (i + 1))"

definition indexOf :: "'a list \<Rightarrow> 'a \<Rightarrow> int" where
  "indexOf xs x = indexOf_from xs x 0"

text \<open>A number inside a template string: its decimal digits.\<close>

function show_nat :: "nat \<Rightarrow> string" where
  "show_nat n =
     (if n < 10 then [ascii_digits ! n]
      else show_nat (n div 10) @ [ascii_digits ! (n mod 10)])"
  by pat_completeness auto
termination
  by (relation "measure id") auto

text \<open>\<open>xs.join(sep)\<close>\<close>

fun join :: "string \<Rightarrow> string list \<Rightarrow> string" where
  "join sep [] = []"
| "join sep [x] = x"
| "join sep (x # y # ys) = x @ sep @ join sep (y # ys)"

text \<open>One data row of the table (\<open>parseCustomMappings\<close>, lines 100 to 110).\<close>

definition parse_row :: "int \<Rightarrow> int \<Rightarrow> int \<Rightarrow> string \<Rightarrow> FilenameMappingEntry option" where
  "parse_row gameNameIndex imsCodeIndex providerIndex line =
     (let cells = map trim (split_on (CHR 0x09) line) in
      if int (length cells) > max gameNameIndex imsCodeIndex
      then (let name = cells ! nat gameNameIndex;
                code = cells ! nat imsCodeIndex;
                prov = (if providerIndex \<noteq> - 1 \<and> int (length cells) > providerIndex
                        then Some (cells ! nat providerIndex) else None)
            in if name \<noteq> [] \<and> code \<noteq> []
               then Some \<lparr>gameName = name, imsGameCode = code,
                          provider = (if truthy prov then prov else None)\<rparr>
               else None)
      else None)"

text \<open>
  \<open>parseCustomMappings\<close> (App.tsx, lines 77 to 121): the entries, and the message it stores
  in \<open>mappingParseMessage\<close>.
\<close>

definition parseCustomMappings :: "string \<Rightarrow> FilenameMappingEntry list \<times> string" where
  "parseCustomMappings mappingsString =
     (if trim mappingsString = []
      then ([], ''Mapping data is empty. Paste your tab-separated table.'')
      else (case split_on (CHR 0x0A) (trim mappingsString) of
              [] \<Rightarrow> ([], ''No lines found in mapping data.'')
            | header # rows \<Rightarrow>
               (let headerLine = map trim (split_on (CHR 0x09) (toLowerCase header));
                    gameNameIndex = indexOf headerLine (toLowerCase MAPPING_COL_GAME_NAME);
                    imsCodeIndex = indexOf headerLine (toLowerCase MAPPING_COL_IMS_CODE);
                    providerIndex = indexOf headerLine (toLowerCase MAPPING_COL_PROVIDER)
                in if gameNameIndex = - 1 \<or> imsCodeIndex = - 1
                   then ([], ''Error: Required columns missing. Ensure ''
                             @ [CHR 0x27] @ MAPPING_COL_GAME_NAME @ [CHR 0x27] @ '' and ''
                             @ [CHR 0x27] @ MAPPING_COL_IMS_CODE @ [CHR 0x27]
                             @ '' headers are present. Data should be tab-separated.'')
                   else (let newMappings =
                               List.map_filter
                                 (parse_row gameNameIndex imsCodeIndex providerIndex) rows
                         in (newMappings,
                             if newMappings = [] \<and> length (header # rows) > 1
                             then ''Mappings parsed, but no valid entries found after the header row. Check data values and ensure they are tab-separated under the correct headers.''
                             else if newMappings \<noteq> []
                             then ''Successfully parsed '' @ show_nat (length newMappings)
                                  @ '' mapping entries.''
                             else ''No mapping entries found. Ensure data is present after the header row or check header names.'')))))"

section \<open>Application state\<close>

text \<open>
  What \<open>processSingleImage\<close> still has to do for the item it was called on. This is the
  pending promise of the source, not a state variable of the component: the item's id and
  original name and the mappings are the ones captured when the call was made.
\<close>

datatype task =
  Idle
  | AwaitingOcr image_id string "FilenameMappingEntry list"
  | MatchingNext image_id string "FilenameMappingEntry list" "string option"
  | Settled

record app_state =
  processedImages :: "ProcessedImage list"
  isCurrentlyProcessingImage :: bool
  startProcessingFlag :: bool
  isZipping :: bool
  apiKey :: "string option"
  pastedCustomMappings :: string
  manualFilenameMappings :: "FilenameMappingEntry list"
  mappingParseMessage :: "string option"
  unusedMappingsMessage :: "string option"
  startAttemptErrorMessage :: "string option"
  task :: task

text \<open>
  The state after mounting: everything empty, and the key of the environment when there
  is one (lines 57 to 64).
\<close>

definition init_state :: "string option \<Rightarrow> app_state" where
  "init_state keyFromEnv =
     \<lparr>processedImages = [],
      isCurrentlyProcessingImage = False,
      startProcessingFlag = False,
      isZipping = False,
      apiKey = (if truthy keyFromEnv then keyFromEnv else None),
      pastedCustomMappings = [],
      manualFilenameMappings = [],
      mappingParseMessage = None,
      unusedMappingsMessage = None,
      startAttemptErrorMessage = None,
      task = Idle\<rparr>"

text \<open>\<open>prev.map(img => img.id === id ? f(img) : img)\<close>\<close>

definition update_image ::
  "image_id \<Rightarrow> (ProcessedImage \<Rightarrow> ProcessedImage) \<Rightarrow> ProcessedImage list \<Rightarrow> ProcessedImage list"
  where
  "update_image i f imgs = map (\<lambda>img. if id_img img = i then f img else img) imgs"

section \<open>Handlers\<close>

definition eligible :: "ImageProcessingStatus \<Rightarrow> bool" where
  "eligible st = (st = Queued \<or> st = Error \<or> st = Api_key_missing \<or> st = Mapping_parse_error)"

text \<open>
  \<open>{ ...img, status: 'queued', errorMessage: undefined, gameProvider: undefined,
  suggestedName: undefined, ocrText: undefined }\<close> (lines 365 and 372)
\<close>

definition reset_image :: "ProcessedImage \<Rightarrow> ProcessedImage" where
  "reset_image img =
     img\<lparr>status := Queued, errorMessage := None, gameProvider := None,
         suggestedName := None, ocrText := None\<rparr>"

text \<open>
  The advisory note on mappings that no filename relates to (lines 302 to 327); nothing
  when the note is not set.
\<close>

definition unused_mappings_message ::
  "FilenameMappingEntry list \<Rightarrow> ProcessedImage list \<Rightarrow> string option" where
  "unused_mappings_message currentParsedMappings imgs =
     (if currentParsedMappings \<noteq> [] \<and> imgs \<noteq> []
      then (let allImageOriginalNamesNormalized =
                  map (\<lambda>img. normalizeText (Some (stem_or_whole (originalName img)))) imgs;
                trulyUnusedMappingNames =
                  map gameName
                    (filter (\<lambda>mapping.
                        normalizeText (Some (gameName mapping)) \<noteq> [] \<and>
                        \<not> list_ex (\<lambda>imgName.
                              includes_str imgName (normalizeText (Some (gameName mapping))))
                            allImageOriginalNamesNormalized)
                      currentParsedMappings)
            in if trulyUnusedMappingNames \<noteq> []
               then (let namesToShow =
                           join ([CHR 0x22] @ '', '' @ [CHR 0x22]) (take 3 trulyUnusedMappingNames);
                         moreCount = int (length trulyUnusedMappingNames) - 3;
                         moreText = (if moreCount > 0
                                     then '' (and '' @ show_nat (nat moreCount) @ '' more)''
                                     else [])
                     in Some (''Note: No uploaded images seem to directly relate to mapping entries for: ''
                              @ [CHR 0x22] @ namesToShow @ [CHR 0x22] @ moreText
                              @ ''. These mappings might not be used if OCR also doesn't find a match.''))
               else None)
      else None)"

definition msg_no_api_key :: string where
  "msg_no_api_key =
     ''Cannot start processing: API Key is missing. OCR functionality requires it.''"

definition msg_mapping_empty :: string where
  "msg_mapping_empty =
     ''Cannot start processing: Mapping data is empty. Please paste your game mappings.''"

definition msg_no_valid_entries :: string where
  "msg_no_valid_entries = ''Cannot start processing: No valid mapping entries found. ''"

definition msg_check_format :: string where
  "msg_check_format =
     ''Please check mapping data format, ensure headers ('Name', 'IMS Game Code') are correct and data exists under them.''"

definition msg_no_images :: string where
  "msg_no_images = ''Cannot start processing: No images have been uploaded.''"

definition msg_none_pending :: string where
  "msg_none_pending =
     ''Cannot start processing: No images are currently pending or in an error state to reprocess.''"

text \<open>
  \<open>handleStartAllProcessing\<close> (App.tsx, lines 294 to 369). \<open>mappingParseMessage s\<close> in the
  third refusal is the message of the state the handler was created in, not the one the
  parse of this call stores.
\<close>

definition handleStartAllProcessing :: "app_state \<Rightarrow> app_state" where
  "handleStartAllProcessing s =
     (case parseCustomMappings (pastedCustomMappings s) of
        (currentParsedMappings, parseMessage) \<Rightarrow>
     (let s1 = s\<lparr>startAttemptErrorMessage := None,
                 mappingParseMessage := Some parseMessage,
                 manualFilenameMappings := currentParsedMappings,
                 unusedMappingsMessage :=
                   unused_mappings_message currentParsedMappings (processedImages s)\<rparr>
      in if \<not> truthy (apiKey s)
         then s1\<lparr>startAttemptErrorMessage := Some msg_no_api_key\<rparr>
         else if trim (pastedCustomMappings s) = []
         then s1\<lparr>startAttemptErrorMessage := Some msg_mapping_empty\<rparr>
         else if currentParsedMappings = []
         then s1\<lparr>startAttemptErrorMessage :=
                    Some (msg_no_valid_entries @
                          (case mappingParseMessage s of
                             None \<Rightarrow> msg_check_format
                           | Some m \<Rightarrow>
                               if m \<noteq> [] \<and> prefix ''error:'' (toLowerCase m) then m
                               else msg_check_format))\<rparr>
         else (let imagesToProcess =
                     filter (\<lambda>img. eligible (status img)) (processedImages s)
               in if imagesToProcess = []
                  then s1\<lparr>startAttemptErrorMessage :=
                             Some (if processedImages s = [] then msg_no_images
                                   else msg_none_pending)\<rparr>
                  else s1\<lparr>processedImages :=
                             map (\<lambda>img. if list_ex (\<lambda>procImg. id_img procImg = id_img img)
                                               imagesToProcess
                                         then reset_image img else img)
                               (processedImages s),
                           startProcessingFlag := True\<rparr>)))"

text \<open>\<open>handleRetry\<close> (lines 371 to 376)\<close>

definition handleRetry :: "image_id \<Rightarrow> app_state \<Rightarrow> app_state" where
  "handleRetry i s =
     (let s1 = s\<lparr>processedImages := update_image i reset_image (processedImages s)\<rparr>
      in if \<not> startProcessingFlag s \<and> \<not> isCurrentlyProcessingImage s
         then s1\<lparr>startProcessingFlag := True\<rparr> else s1)"

text \<open>\<open>handleClearAll\<close> (lines 390 to 399)\<close>

definition handleClearAll :: "app_state \<Rightarrow> app_state" where
  "handleClearAll s =
     s\<lparr>processedImages := [], startProcessingFlag := False,
       isCurrentlyProcessingImage := False, isZipping := False,
       mappingParseMessage := None, unusedMappingsMessage := None,
       startAttemptErrorMessage := None\<rparr>"

text \<open>
  The key field: the Enter key stores the trimmed input (line 492); the button, which is
  disabled while the trimmed input is empty (line 506), stores it and, when it is not
  empty, queues the items that were waiting for a key (lines 498 to 504).
\<close>

definition setApiKey_enter :: "string \<Rightarrow> app_state \<Rightarrow> app_state" where
  "setApiKey_enter apiKeyInput s = s\<lparr>apiKey := Some (trim apiKeyInput)\<rparr>"

definition setApiKey_click :: "string \<Rightarrow> app_state \<Rightarrow> app_state" where
  "setApiKey_click apiKeyInput s =
     (let trimmedKey = trim apiKeyInput;
          s1 = s\<lparr>apiKey := Some trimmedKey\<rparr>
      in if trimmedKey \<noteq> []
         then s1\<lparr>processedImages :=
                    map (\<lambda>img. if status img = Api_key_missing
                                then img\<lparr>status := Queued, errorMessage := None\<rparr> else img)
                      (processedImages s)\<rparr>
         else s1)"

text \<open>
  \<open>handleFilesSelected\<close> (lines 255 to 292) in its two parts: what it does when called,
  and the append once every metadata promise has settled.
\<close>

definition handleFilesSelected_call :: "app_state \<Rightarrow> app_state" where
  "handleFilesSelected_call s =
     s\<lparr>startAttemptErrorMessage := None, unusedMappingsMessage := None\<rparr>"

definition handleFilesSelected_append ::
  "string option \<Rightarrow> uploaded_file list \<Rightarrow> app_state \<Rightarrow> app_state" where
  "handleFilesSelected_append apiKeyAtCall files s =
     s\<lparr>processedImages := processedImages s @ new_images apiKeyAtCall files\<rparr>"

text \<open>
  \<open>processSingleImage\<close> (lines 181 to 236) in the parts between which it can be suspended:
  up to the OCR call, the settling of the OCR call, the matching, and the \<open>finally\<close> of the
  caller (line 246). The last \<open>catch\<close> (lines 228 to 234) has no counterpart: the
  matcher and the sanitizer are total here.
\<close>

datatype ocr_outcome = OcrReturned "string option" | OcrThrew "string option"

definition processSingleImage_start ::
  "ProcessedImage \<Rightarrow> FilenameMappingEntry list \<Rightarrow> app_state \<Rightarrow> app_state" where
  "processSingleImage_start imageToProcess currentMappings s =
     (if \<not> truthy (apiKey s)
      then s\<lparr>processedImages :=
                update_image (id_img imageToProcess)
                  (\<lambda>img. img\<lparr>status := Api_key_missing,
                              errorMessage := Some ''API Key is missing. OCR skipped.''\<rparr>)
                  (processedImages s),
              task := Settled\<rparr>
      else if currentMappings = []
      then s\<lparr>processedImages :=
                update_image (id_img imageToProcess)
                  (\<lambda>img. img\<lparr>status := Mapping_parse_error,
                              errorMessage := Some ''No valid mappings loaded. Cannot process.''\<rparr>)
                  (processedImages s),
              task := Settled\<rparr>
      else s\<lparr>processedImages :=
                update_image (id_img imageToProcess) (\<lambda>img. img\<lparr>status := Ocr_extracting\<rparr>)
                  (processedImages s),
              task := AwaitingOcr (id_img imageToProcess) (originalName imageToProcess)
                        currentMappings\<rparr>)"

definition processSingleImage_ocr :: "ocr_outcome \<Rightarrow> app_state \<Rightarrow> app_state" where
  "processSingleImage_ocr outcome s =
     (case task s of
        AwaitingOcr i name currentMappings \<Rightarrow>
          (case outcome of
             OcrReturned txt \<Rightarrow>
               s\<lparr>processedImages :=
                    update_image i
                      (\<lambda>img. img\<lparr>ocrText := Some (or_else txt NO_TEXT_DETECTED_MARKER),
                                  status := Name_matching\<rparr>)
                      (processedImages s),
                  task := MatchingNext i name currentMappings txt\<rparr>
           | OcrThrew message \<Rightarrow>
               s\<lparr>processedImages :=
                    update_image i
                      (\<lambda>img. img\<lparr>status := Error,
                                  errorMessage := Some (or_else message ''Failed OCR extraction.''),
                                  ocrText := Some ''OCR_FAILED''\<rparr>)
                      (processedImages s),
                  task := Settled\<rparr>)
      | _ \<Rightarrow> s)"

definition processSingleImage_match :: "app_state \<Rightarrow> app_state" where
  "processSingleImage_match s =
     (case task s of
        MatchingNext i name currentMappings txt \<Rightarrow>
          (case findMatchingGame txt name currentMappings of
             Some matchedMapping \<Rightarrow>
               s\<lparr>processedImages :=
                    update_image i
                      (\<lambda>img. img\<lparr>status := Completed,
                                  suggestedName :=
                                    Some (sanitizeFilename (imsGameCode matchedMapping)
                                            (imsGameCode matchedMapping) default_maxLength
                                          @ ''.webp''),
                                  gameProvider := provider matchedMapping,
                                  errorMessage := None\<rparr>)
                      (processedImages s),
                  task := Settled\<rparr>
           | None \<Rightarrow>
               s\<lparr>processedImages :=
                    update_image i
                      (\<lambda>img. img\<lparr>status := Error,
                                  errorMessage := Some ''Game not found in mappings.''\<rparr>)
                      (processedImages s),
                  task := Settled\<rparr>)
      | _ \<Rightarrow> s)"

definition processSingleImage_finally :: "app_state \<Rightarrow> app_state" where
  "processSingleImage_finally s =
     (case task s of
        Settled \<Rightarrow> s\<lparr>isCurrentlyProcessingImage := False, task := Idle\<rparr>
      | _ \<Rightarrow> s)"

text \<open>The processing loop effect (lines 239 to 252).\<close>

definition processing_effect :: "app_state \<Rightarrow> app_state" where
  "processing_effect s =
     (if isCurrentlyProcessingImage s \<or> \<not> startProcessingFlag s \<or> isZipping s then s
      else (case find (\<lambda>img. status img = Queued) (processedImages s) of
              Some nextImageToProcess \<Rightarrow>
                processSingleImage_start nextImageToProcess (manualFilenameMappings s)
                  (s\<lparr>isCurrentlyProcessingImage := True\<rparr>)
            | None \<Rightarrow>
                if startProcessingFlag s \<and> processedImages s \<noteq> []
                then s\<lparr>startProcessingFlag := False\<rparr> else s))"

text \<open>
  \<open>createAndDownloadZip\<close> (lines 401 to 447): up to the generation of the archive, and the
  settling of that generation.
\<close>

definition createAndDownloadZip_start :: "app_state \<Rightarrow> app_state" where
  "createAndDownloadZip_start s =
     (if completedImages (processedImages s) = []
      then s\<lparr>isZipping := False,
              startAttemptErrorMessage :=
                Some ''Download failed: No successfully processed images are available to include in the ZIP.''\<rparr>
      else s\<lparr>isZipping := True, startAttemptErrorMessage := None\<rparr>)"

definition createAndDownloadZip_settled :: "bool \<Rightarrow> app_state \<Rightarrow> app_state" where
  "createAndDownloadZip_settled generated s =
     (if generated then s\<lparr>isZipping := False\<rparr>
      else s\<lparr>isZipping := False,
              startAttemptErrorMessage :=
                Some ''An unexpected error occurred while creating the ZIP file.''\<rparr>)"

section \<open>The page as a transition system\<close>

text \<open>
  The conditions under which the page offers each control: \<open>canStartProcessing\<close>,
  \<open>globalDisable\<close> and \<open>canDownloadZip\<close> (App.tsx, lines 453 to 461), the \<open>disabled\<close>
  attributes of the upload area (line 523), the mapping text (line 537), the clear
  button (line 562) and the image cards (line 611), and \<open>canRetry\<close> of the image card.
\<close>

definition globalDisable :: "app_state \<Rightarrow> bool" where
  "globalDisable s =
     (isCurrentlyProcessingImage s \<or> startProcessingFlag s \<or> isZipping s \<or> \<not> truthy (apiKey s))"

definition canStartProcessing :: "app_state \<Rightarrow> bool" where
  "canStartProcessing s =
     (apiKey s \<noteq> None \<and> list_ex (\<lambda>img. eligible (status img)) (processedImages s)
      \<and> \<not> isCurrentlyProcessingImage s \<and> \<not> startProcessingFlag s \<and> \<not> isZipping s
      \<and> trim (pastedCustomMappings s) \<noteq> [])"

definition canDownloadZip :: "app_state \<Rightarrow> bool" where
  "canDownloadZip s =
     (list_ex (\<lambda>img. status img = Completed) (processedImages s)
      \<and> \<not> isZipping s \<and> \<not> startProcessingFlag s \<and> \<not> isCurrentlyProcessingImage s)"

definition cardsDisabled :: "app_state \<Rightarrow> bool" where
  "cardsDisabled s = (isCurrentlyProcessingImage s \<or> startProcessingFlag s \<or> isZipping s)"

definition canRetry :: "ImageProcessingStatus \<Rightarrow> bool" where
  "canRetry st = (st = Error \<or> st = Api_key_missing \<or> st = Mapping_parse_error)"

definition clearDisabled :: "app_state \<Rightarrow> bool" where
  "clearDisabled s =
     (processedImages s = [] \<or> isCurrentlyProcessingImage s \<or> startProcessingFlag s
      \<or> isZipping s)"

text \<open>
  What can happen to the page: the user's actions, which do nothing while their control is
  disabled, and the continuations of the pending promises.
\<close>

datatype event =
  PressEnterInKeyField string
  | ClickSetKey string
  | EditMappings string
  | SelectFiles
  | FilesLoaded "string option" "uploaded_file list"
  | ClickStartAll
  | ClickRetry image_id
  | ClickClearAll
  | RunEffect
  | OcrSettled ocr_outcome
  | MatchNames
  | RunFinally
  | ClickDownloadZip
  | ZipSettled bool

definition step :: "event \<Rightarrow> app_state \<Rightarrow> app_state" where
  "step e s =
     (case e of
        PressEnterInKeyField apiKeyInput \<Rightarrow> setApiKey_enter apiKeyInput s
      | ClickSetKey apiKeyInput \<Rightarrow>
          if trim apiKeyInput = [] then s else setApiKey_click apiKeyInput s
      | EditMappings text \<Rightarrow>
          if globalDisable s then s else s\<lparr>pastedCustomMappings := text\<rparr>
      | SelectFiles \<Rightarrow> if globalDisable s then s else handleFilesSelected_call s
      | FilesLoaded apiKeyAtCall files \<Rightarrow> handleFilesSelected_append apiKeyAtCall files s
      | ClickStartAll \<Rightarrow> if canStartProcessing s then handleStartAllProcessing s else s
      | ClickRetry i \<Rightarrow>
          if \<not> cardsDisabled s
             \<and> list_ex (\<lambda>img. id_img img = i \<and> canRetry (status img)) (processedImages s)
          then handleRetry i s else s
      | ClickClearAll \<Rightarrow> if clearDisabled s then s else handleClearAll s
      | RunEffect \<Rightarrow> processing_effect s
      | OcrSettled outcome \<Rightarrow> processSingleImage_ocr outcome s
      | MatchNames \<Rightarrow> processSingleImage_match s
      | RunFinally \<Rightarrow> processSingleImage_finally s
      | ClickDownloadZip \<Rightarrow> if canDownloadZip s then createAndDownloadZip_start s else s
      | ZipSettled generated \<Rightarrow>
          if isZipping s then createAndDownloadZip_settled generated s else s)"

text \<open>
  The one assumption on the environment: the ids of the items an upload appends are not
  ids of items already in the list (section 3 of the specification: the id is unique per
  upload and never reused). Two items of one upload differ in their index.
\<close>

definition new_ids :: "uploaded_file list \<Rightarrow> image_id list" where
  "new_ids files =
     map (\<lambda>(index, f). (loaded_at f, index, file_name f)) (zip [0 ..< length files] files)"

definition env_ok :: "event \<Rightarrow> app_state \<Rightarrow> bool" where
  "env_ok e s =
     (case e of
        FilesLoaded apiKeyAtCall files \<Rightarrow>
          list_all (\<lambda>i. \<not> list_ex (\<lambda>img. id_img img = i) (processedImages s)) (new_ids files)
      | _ \<Rightarrow> True)"

inductive reachable :: "app_state \<Rightarrow> bool" where
  reachable_init: "reachable (init_state keyFromEnv)"
| reachable_step: "reachable s \<Longrightarrow> env_ok e s \<Longrightarrow> reachable (step e s)"

text \<open>
  The states of every sequence of events, whatever ids the uploads bring: an id is built
  from \<open>Date.now()\<close>, the index and the file name (lines 264 and 277), and nothing
  compares it with the ids in the list.
\<close>

inductive reachable_any :: "app_state \<Rightarrow> bool" where
  any_init: "reachable_any (init_state keyFromEnv)"
| any_step: "reachable_any s \<Longrightarrow> reachable_any (step e s)"

fun run :: "event list \<Rightarrow> app_state \<Rightarrow> app_state" where
  "run [] s = s"
| "run (e # es) s = run es (step e s)"

fun run_ok :: "event list \<Rightarrow> app_state \<Rightarrow> bool" where
  "run_ok [] s = True"
| "run_ok (e # es) s = (env_ok e s \<and> run_ok es (step e s))"

text \<open>The statuses of an item the scheduler is working on.\<close>

definition in_flight :: "ProcessedImage \<Rightarrow> bool" where
  "in_flight img = (status img = Ocr_extracting \<or> status img = Name_matching)"

text \<open>
  A refused start: the reason is reported, the run flag is as it was and so is every
  item.
\<close>

definition refused_with :: "app_state \<Rightarrow> string \<Rightarrow> bool" where
  "refused_with s reason =
     (startAttemptErrorMessage (handleStartAllProcessing s) = Some reason \<and>
      startProcessingFlag (handleStartAllProcessing s) = startProcessingFlag s \<and>
      processedImages (handleStartAllProcessing s) = processedImages s)"

section \<open>Invariants of the transition system\<close>

text \<open>What a terminal status says about the fields of an item.\<close>

definition item_ok :: "ProcessedImage \<Rightarrow> bool" where
  "item_ok img =
     ((status img = Completed \<longrightarrow> (\<exists>n. suggestedName img = Some n \<and> suffix ''.webp'' n)) \<and>
      (status img = Error \<or> status img = Api_key_missing \<or> status img = Mapping_parse_error
         \<longrightarrow> truthy (errorMessage img)))"

text \<open>The classification of an item is the one of its size; an unread size is standard.\<close>

definition type_of_size :: "nat option \<Rightarrow> nat option \<Rightarrow> ImageType" where
  "type_of_size w h =
     (case (w, h) of
        (Some w', Some h') \<Rightarrow> classify_image w' h'
      | _ \<Rightarrow> Standard)"

definition geometry_ok :: "ProcessedImage \<Rightarrow> bool" where
  "geometry_ok img = (imageType img = Some (type_of_size (width img) (height img)))"

definition keeps_geometry :: "(ProcessedImage \<Rightarrow> ProcessedImage) \<Rightarrow> bool" where
  "keeps_geometry f =
     (\<forall>img. imageType (f img) = imageType img \<and> width (f img) = width img
        \<and> height (f img) = height img \<and> id_img (f img) = id_img img)"

text \<open>
  The item the pending call works on; the busy flag is set exactly while a call is
  pending, and only that item can be in flight.
\<close>

definition current_id :: "task \<Rightarrow> image_id option" where
  "current_id t =
     (case t of
        AwaitingOcr i name ms \<Rightarrow> Some i
      | MatchingNext i name ms ocr \<Rightarrow> Some i
      | _ \<Rightarrow> None)"

definition task_ok :: "app_state \<Rightarrow> bool" where
  "task_ok s =
     ((isCurrentlyProcessingImage s = (task s \<noteq> Idle)) \<and>
      (\<forall>img\<in>set (processedImages s).
          in_flight img \<longrightarrow> current_id (task s) = Some (id_img img)))"

definition flag_ok :: "app_state \<Rightarrow> bool" where
  "flag_ok s = (startProcessingFlag s \<longrightarrow> processedImages s \<noteq> [])"

definition ids_ok :: "app_state \<Rightarrow> bool" where
  "ids_ok s = distinct (map id_img (processedImages s))"

subsection \<open>Sample mapping entries\<close>

definition ex_game :: FilenameMappingEntry where
  "ex_game = \<lparr>gameName = ''Game'', imsGameCode = ''g_1'', provider = Some ''Playtech''\<rparr>"

definition ex_game_again :: FilenameMappingEntry where
  "ex_game_again = \<lparr>gameName = ''GAME!'', imsGameCode = ''g_1b'', provider = None\<rparr>"

definition ex_game_v2 :: FilenameMappingEntry where
  "ex_game_v2 = \<lparr>gameName = ''GameV2'', imsGameCode = ''g_2'', provider = None\<rparr>"

definition ex_unnamed :: FilenameMappingEntry where
  "ex_unnamed = \<lparr>gameName = ''!!'', imsGameCode = ''g_3'', provider = None\<rparr>"

subsection \<open>A sample session\<close>

text \<open>
  Two files are uploaded, a 500 by 693 image and one whose size cannot be read; a table
  with one entry is pasted; the run is started; the first item is matched, the OCR call
  of the second fails.
\<close>

definition ex_table :: string where
  "ex_table =
     ''Name'' @ [CHR 0x09] @ ''Game Provider'' @ [CHR 0x09] @ ''IMS Game Code'' @ [CHR 0x0A]
     @ ''Game'' @ [CHR 0x09] @ ''Playtech'' @ [CHR 0x09] @ ''g_1''"

definition ex_file_a :: uploaded_file where
  "ex_file_a =
     \<lparr>file_name = ''540x540-game.webp'', loaded_at = 1000, decoded_size = Some (500, 693)\<rparr>"

definition ex_file_b :: uploaded_file where
  "ex_file_b = \<lparr>file_name = ''other.webp'', loaded_at = 1001, decoded_size = None\<rparr>"

definition ex_id_a :: image_id where
  "ex_id_a = (1000, 0, ''540x540-game.webp'')"

definition ex_a_queued :: ProcessedImage where
  "ex_a_queued =
     \<lparr>id_img = ex_id_a, originalName = ''540x540-game.webp'', status = Queued,
      ocrText = None, suggestedName = None, errorMessage = None, gameProvider = None,
      imageType = Some Portrait, width = Some 500, height = Some 693\<rparr>"

definition ex_a_extracting :: ProcessedImage where
  "ex_a_extracting = ex_a_queued\<lparr>status := Ocr_extracting\<rparr>"

definition ex_a_matching :: ProcessedImage where
  "ex_a_matching = ex_a_queued\<lparr>status := Name_matching, ocrText := Some ''GAME''\<rparr>"

definition ex_a_done :: ProcessedImage where
  "ex_a_done =
     ex_a_queued\<lparr>status := Completed, ocrText := Some ''GAME'',
                  suggestedName := Some ''g_1.webp'', gameProvider := Some ''Playtech''\<rparr>"

definition ex_id_b :: image_id where
  "ex_id_b = (1001, 1, ''other.webp'')"

definition ex_b_unread :: ProcessedImage where
  "ex_b_unread =
     \<lparr>id_img = ex_id_b, originalName = ''other.webp'', status = Error,
      ocrText = None, suggestedName = None,
      errorMessage = Some ''Could not read image dimensions.'', gameProvider = None,
      imageType = Some Standard, width = None, height = None\<rparr>"

definition ex_b_queued :: ProcessedImage where
  "ex_b_queued = ex_b_unread\<lparr>status := Queued, errorMessage := None\<rparr>"

definition ex_b_extracting :: ProcessedImage where
  "ex_b_extracting = ex_b_queued\<lparr>status := Ocr_extracting\<rparr>"

definition ex_b_failed :: ProcessedImage where
  "ex_b_failed =
     ex_b_queued\<lparr>status := Error, errorMessage := Some ''Failed OCR extraction.'',
                  ocrText := Some ''OCR_FAILED''\<rparr>"

definition ex_loaded :: app_state where
  "ex_loaded = (init_state (Some ''key''))\<lparr>processedImages := [ex_a_queued, ex_b_unread]\<rparr>"

definition ex_pasted :: app_state where
  "ex_pasted = ex_loaded\<lparr>pastedCustomMappings := ex_table\<rparr>"

definition ex_started :: app_state where
  "ex_started =
     ex_pasted\<lparr>processedImages := [ex_a_queued, ex_b_queued],
               startProcessingFlag := True,
               manualFilenameMappings := [ex_game],
               mappingParseMessage := Some ''Successfully parsed 1 mapping entries.''\<rparr>"

definition ex_first_extracting :: app_state where
  "ex_first_extracting =
     ex_started\<lparr>processedImages := [ex_a_extracting, ex_b_queued],
                isCurrentlyProcessingImage := True,
                task := AwaitingOcr ex_id_a ''540x540-game.webp'' [ex_game]\<rparr>"

definition ex_first_matching :: app_state where
  "ex_first_matching =
     ex_first_extracting\<lparr>processedImages := [ex_a_matching, ex_b_queued],
                         task := MatchingNext ex_id_a ''540x540-game.webp'' [ex_game]
                                   (Some ''GAME'')\<rparr>"

definition ex_first_done :: app_state where
  "ex_first_done =
     ex_first_matching\<lparr>processedImages := [ex_a_done, ex_b_queued], task := Settled\<rparr>"

definition ex_between :: app_state where
  "ex_between = ex_first_done\<lparr>isCurrentlyProcessingImage := False, task := Idle\<rparr>"

definition ex_second_extracting :: app_state where
  "ex_second_extracting =
     ex_between\<lparr>processedImages := [ex_a_done, ex_b_extracting],
                isCurrentlyProcessingImage := True,
                task := AwaitingOcr ex_id_b ''other.webp'' [ex_game]\<rparr>"

definition ex_second_failed :: app_state where
  "ex_second_failed =
     ex_second_extracting\<lparr>processedImages := [ex_a_done, ex_b_failed], task := Settled\<rparr>"

definition ex_drained :: app_state where
  "ex_drained = ex_second_failed\<lparr>isCurrentlyProcessingImage := False, task := Idle\<rparr>"


subsection \<open>Sessions in which an id comes twice\<close>

text \<open>
  The first file is uploaded twice and both uploads read the same clock value, so that
  the two items carry one id; the table is pasted, the run is started and the effect
  takes the first item.
\<close>

definition ex_once :: app_state where
  "ex_once = (init_state (Some ''key''))\<lparr>processedImages := [ex_a_queued]\<rparr>"









section \<open>Verified properties\<close>

subsection \<open>Characters and the sanitizer's steps\<close>

lemma len5: "matches_dot_webp t \<Longrightarrow> length t = 5"
proof -
  assume "matches_dot_webp t"
  then have "length (map canonicalize t) = length ''.WEBP''"
    unfolding matches_dot_webp_def by (rule arg_cong)
  then show ?thesis by simp
qed

lemma replace_webp_suffix_short:
  "length s < 5 \<Longrightarrow> replace_webp_suffix s = s"
proof (induction s)
  case Nil
  show ?case by simp
next
  case (Cons c cs)
  then have "\<not> matches_dot_webp (c # cs)" using len5[of "c # cs"] by auto
  with Cons show ?case by simp
qed

lemma replace_webp_suffix_drop:
  "5 \<le> length s \<Longrightarrow> replace_webp_suffix s =
     (if matches_dot_webp (drop (length s - 5) s)
      then take (length s - 5) s else s)"
proof (induction s)
  case Nil
  then show ?case by simp
next
  case (Cons c cs)
  show ?case
  proof (cases "length cs = 4")
    case True
    then have d: "drop (length (c # cs) - 5) (c # cs) = c # cs" 
      and t: "take (length (c # cs) - 5) (c # cs) = []" by simp_all
    have "replace_webp_suffix cs = cs" using True by (simp add: replace_webp_suffix_short)
    then show ?thesis unfolding d t by simp
  next
    case False
    with Cons.prems have 3: "5 \<le> length cs" by simp
    then have e: "length (c # cs) - 5 = Suc (length cs - 5)" by simp
    have d: "drop (length (c # cs) - 5) (c # cs) = drop (length cs - 5) cs"
      by (simp only: e drop_Suc_Cons)
    have t: "take (length (c # cs) - 5) (c # cs) = c # take (length cs - 5) cs"
      by (simp only: e take_Suc_Cons)
    from 3 have "\<not> matches_dot_webp (c # cs)" using len5[of "c # cs"] by auto
    then show ?thesis unfolding d t using Cons.IH[OF 3] by simp
  qed
qed


lemma toLowerCase_char_letters:
  "(toLowerCase_char c = CHR ''w'') = (c = CHR ''w'' \<or> c = CHR ''W'')"
  "(toLowerCase_char c = CHR ''e'') = (c = CHR ''e'' \<or> c = CHR ''E'')"
  "(toLowerCase_char c = CHR ''b'') = (c = CHR ''b'' \<or> c = CHR ''B'')"
  "(toLowerCase_char c = CHR ''p'') = (c = CHR ''p'' \<or> c = CHR ''P'')"
  "(toLowerCase_char c = CHR ''.'') = (c = CHR ''.'')"
  unfolding toLowerCase_char_def ascii_upper_def ascii_lower_def latin1_upper_def latin1_lower_def
  by (auto split: if_splits)

lemma canonicalize_letters:
  "(canonicalize c = CHR ''W'') = (c = CHR ''w'' \<or> c = CHR ''W'')"
  "(canonicalize c = CHR ''E'') = (c = CHR ''e'' \<or> c = CHR ''E'')"
  "(canonicalize c = CHR ''B'') = (c = CHR ''b'' \<or> c = CHR ''B'')"
  "(canonicalize c = CHR ''P'') = (c = CHR ''p'' \<or> c = CHR ''P'')"
  "(canonicalize c = CHR ''.'') = (c = CHR ''.'')"
  unfolding canonicalize_def ascii_upper_def ascii_lower_def
  by (auto split: if_splits)

lemma matches_dot_webp_iff:
  "matches_dot_webp s = (toLowerCase s = ''.webp'')"
  unfolding matches_dot_webp_def toLowerCase_def
  by (auto simp: map_eq_Cons_conv toLowerCase_char_letters canonicalize_letters)

lemma suffix_iff_drop:
  "suffix xs ys = (length xs \<le> length ys \<and> drop (length ys - length xs) ys = xs)"
proof
  assume "suffix xs ys"
  then obtain zs where "ys = zs @ xs" by (auto simp: suffix_def)
  then show "length xs \<le> length ys \<and> drop (length ys - length xs) ys = xs" by simp
next
  assume a: "length xs \<le> length ys \<and> drop (length ys - length xs) ys = xs"
  have "ys = take (length ys - length xs) ys @ drop (length ys - length xs) ys" by simp
  with a show "suffix xs ys" by (metis suffixI)
qed

lemma replace_webp_suffix_spec: "replace_webp_suffix s = spec_strip_suffix s"
proof (cases "5 \<le> length s")
  case True
  have l: "length ''.webp'' = 5" by simp
  have "suffix ''.webp'' (toLowerCase s) = matches_dot_webp (drop (length s - 5) s)"
    unfolding suffix_iff_drop matches_dot_webp_iff l using True
    by (simp add: toLowerCase_def drop_map)
  then show ?thesis using True
    by (simp add: replace_webp_suffix_drop spec_strip_suffix_def)
next
  case False
  then have "\<not> suffix ''.webp'' (toLowerCase s)"
    unfolding suffix_iff_drop by (simp add: toLowerCase_def)
  then show ?thesis using False
    by (simp add: replace_webp_suffix_short spec_strip_suffix_def)
qed

lemma unsafe_iff: "is_unsafe c = (c \<notin> spec_safe_chars)"
  unfolding is_unsafe_def is_word_def spec_safe_chars_def is_upper_def is_lower_def is_digit_def
    ascii_upper_def ascii_lower_def ascii_digits_def
  by auto

lemma replace_unsafe_spec: "replace_unsafe s = spec_replace_outside s"
  unfolding replace_unsafe_def spec_replace_outside_def by (simp add: unsafe_iff)

lemma collapse_from:
  "spec_collapse_from True cs = replace_space_runs (dropWhile is_space cs) \<and>
   spec_collapse_from False cs = replace_space_runs cs"
  by (induction cs) auto

lemma replace_space_runs_spec: "replace_space_runs s = spec_collapse_spaces s"
  by (simp add: spec_collapse_spaces_def collapse_from)

lemma truncate_spec:
  "(if int (length s) > maxLength then substring s 0 maxLength else s) = spec_truncate maxLength s"
  unfolding spec_truncate_def substring_def Let_def
  by (auto simp: min_def max_def)

lemma replace_leading_seps_dropWhile: "replace_leading_seps s = dropWhile is_sep s"
  by (induction s) auto

lemma replace_trailing_seps_rev: "replace_trailing_seps s = rev (dropWhile is_sep (rev s))"
proof (induction s)
  case Nil
  show ?case by simp
next
  case (Cons c cs)
  show ?case
  proof (cases "list_all is_sep cs")
    case True
    then have "dropWhile is_sep (rev cs) = []" by (simp add: list_all_iff)
    with True Cons.IH show ?thesis by (simp add: dropWhile_append list_all_iff)
  next
    case False
    then show ?thesis using Cons.IH by (auto simp: dropWhile_append list_all_iff)
  qed
qed

lemma trim_commute:
  "dropWhile P (rev (dropWhile P (rev s))) = rev (dropWhile P (rev (dropWhile P s)))"
proof (induction s)
  case Nil
  show ?case by simp
next
  case (Cons c cs)
  show ?case
  proof (cases "P c")
    case True
    show ?thesis
    proof (cases "\<forall>x\<in>set cs. P x")
      case True
      with \<open>P c\<close> show ?thesis by (auto simp: dropWhile_append dest: set_dropWhileD)
    next
      case False
      then have "dropWhile P (rev cs) \<noteq> []" by auto
      then have "dropWhile P (rev cs @ [c]) = dropWhile P (rev cs) @ [c]"
        using False by (auto simp: dropWhile_append)
      with True Cons.IH show ?thesis by simp
    qed
  next
    case False
    then have "dropWhile P (rev cs @ [c]) = (if \<forall>x\<in>set cs. P x then [c] else dropWhile P (rev cs) @ [c])"
      by (auto simp: dropWhile_append)
    with False show ?thesis by auto
  qed
qed

lemma sep_iff: "is_sep = (\<lambda>c. c \<in> spec_trim_chars)"
  by (auto simp: is_sep_def spec_trim_chars_def)

lemma trim_seps_spec: "replace_leading_seps (replace_trailing_seps s) = spec_trim_seps s"
  unfolding replace_leading_seps_dropWhile replace_trailing_seps_rev spec_trim_seps_def
  by (simp add: trim_commute sep_iff)

text \<open>
  White space is replaced character by character in the second step, so the third step
  finds none.
\<close>

lemma space_is_unsafe: "is_space c \<Longrightarrow> is_unsafe c"
  unfolding is_space_def is_unsafe_def is_word_def is_upper_def is_lower_def is_digit_def
    ascii_upper_def ascii_lower_def ascii_digits_def
  by auto

lemma replace_space_runs_none: "\<forall>c\<in>set s. \<not> is_space c \<Longrightarrow> replace_space_runs s = s"
  by (induction s) auto

lemma no_space_after_replacement: "replace_space_runs (replace_unsafe s) = replace_unsafe s"
proof (rule replace_space_runs_none)
  have "\<not> is_space (CHR ''_'')" by (simp add: is_space_def)
  then show "\<forall>c\<in>set (replace_unsafe s). \<not> is_space c"
    by (auto simp: replace_unsafe_def dest: space_is_unsafe)
qed

lemma sanitizeFilename_example:
  "sanitizeFilename ''My Game: Deluxe Edition!!'' ''renamed_image'' default_maxLength
     = ''My_Game__Deluxe_Edition''"
  by code_simp

lemma normalizeText_example:
  "normalizeText (Some ''King's Mystery!'') = ''kingsmystery'' \<and> normalizeText None = []"
  by code_simp

text \<open>
  C4. For every name, fallback and maximal length, \<open>sanitizeFilename\<close> is the composition,
  in this order, of: stripping a trailing \<open>.webp\<close> (in any case), replacing every
  character outside \<open>[A-Za-z0-9_.-]\<close> by an underscore, collapsing each run of white space
  into one underscore, truncating to the maximal length, and trimming \<open>_\<close>, \<open>.\<close> and \<open>-\<close>
  from both ends; the fallback is returned exactly when that result is empty.
\<close>

theorem sanitizeFilename_steps:
  "sanitizeFilename name fallbackName maxLength =
     (if spec_sanitize_steps name maxLength = [] then fallbackName
      else spec_sanitize_steps name maxLength)"
  unfolding sanitizeFilename_def spec_sanitize_steps_def Let_def
  by (simp only: replace_webp_suffix_spec replace_unsafe_spec replace_space_runs_spec
        truncate_spec trim_seps_spec)

subsection \<open>Scores\<close>

lemma includes_str_Nil_right: "includes_str s []"
  by (induction s) auto

lemma includes_str_Nil_left: "includes_str [] t = (t = [])"
  by simp

lemma includes_str_sublist: "includes_str s t = sublist t s"
  by (induction s) (auto simp: sublist_Cons_right)

lemma includes_nonempty: "m \<noteq> [] \<Longrightarrow> includes_str ocr m \<Longrightarrow> ocr \<noteq> []"
  by auto

lemma currentScore_spec:
  "m \<noteq> [] \<Longrightarrow> currentScore ocr fname m = spec_score ocr fname m"
  unfolding currentScore_def spec_score_def spec_check_def Let_def
  by (cases "ocr = []"; cases "fname = []") (auto simp: max_def)

lemma loop_body_spec:
  "loop_body ocr fname st m = (if has_name m then spec_select_step ocr fname st m else st)"
  unfolding loop_body_def spec_select_step_def has_name_def Let_def
  by (simp add: currentScore_spec)

lemma foldl_loop_body_spec:
  "foldl (loop_body ocr fname) st ms = foldl (spec_select_step ocr fname) st (filter has_name ms)"
  by (induction ms arbitrary: st) (simp_all add: loop_body_spec)

text \<open>
  C1. Every mapping entry whose normalized game name is non-empty is scored with the
  greatest of the four containment checks (20 plus the length of the normalized OCR text
  when the name contains that non-empty text, 20 plus the length of the name when the OCR
  text contains the name, 10 plus the length of the normalized filename core when the
  name contains that non-empty core, 10 plus the length of the name when the core
  contains the name), hence 0 when no check fires; entries whose normalized name is empty
  take no part in the loop.
\<close>

theorem findMatchingGame_scores:
  "(normalizeText (Some (gameName m)) \<noteq> [] \<longrightarrow>
      currentScore (normalizedOcr_of ocr) (normalizedFilename_of originalFilename)
          (normalizeText (Some (gameName m)))
        = spec_score (normalizedOcr_of ocr) (normalizedFilename_of originalFilename)
            (normalizeText (Some (gameName m)))) \<and>
   findMatchingGame ocr originalFilename mappings =
     fst (foldl (spec_select_step (normalizedOcr_of ocr) (normalizedFilename_of originalFilename))
            (None, 0) (filter has_name mappings))"
  unfolding findMatchingGame_def
  by (simp add: currentScore_spec foldl_loop_body_spec)

theorem findMatchingGame_scores_witness:
  "normalizeText (Some (gameName ex_game_v2)) \<noteq> [] \<and>
   currentScore (normalizedOcr_of (Some ''Game'')) (normalizedFilename_of ''540x540-game v2 official.webp'')
       (normalizeText (Some (gameName ex_game_v2))) = 24 \<and>
   spec_score (normalizedOcr_of (Some ''Game'')) (normalizedFilename_of ''540x540-game v2 official.webp'')
       (normalizeText (Some (gameName ex_game_v2))) = 24 \<and>
   filter has_name [ex_unnamed, ex_game_v2] = [ex_game_v2]"
proof -
  have n: "normalizeText (Some (gameName ex_game_v2)) \<noteq> []" by code_simp
  have c: "currentScore (normalizedOcr_of (Some ''Game''))
       (normalizedFilename_of ''540x540-game v2 official.webp'')
       (normalizeText (Some (gameName ex_game_v2))) = 24" by code_simp
  have f: "filter has_name [ex_unnamed, ex_game_v2] = [ex_game_v2]" by code_simp
  from findMatchingGame_scores[of ex_game_v2 "Some ''Game''" "''540x540-game v2 official.webp''" "[]"] n
  have "currentScore (normalizedOcr_of (Some ''Game''))
       (normalizedFilename_of ''540x540-game v2 official.webp'')
       (normalizeText (Some (gameName ex_game_v2)))
     = spec_score (normalizedOcr_of (Some ''Game''))
       (normalizedFilename_of ''540x540-game v2 official.webp'')
       (normalizeText (Some (gameName ex_game_v2)))" by blast
  with n c f show ?thesis by simp
qed

subsection \<open>Selection\<close>

lemma loop_body_entry_score:
  "loop_body ocr fname st m =
     (if entry_score ocr fname m > snd st then (Some m, entry_score ocr fname m) else st)"
  unfolding loop_body_def entry_score_def Let_def by simp

lemma sel_inv_foldl:
  "sel_inv (entry_score ocr fname) ms (foldl (loop_body ocr fname) (None, 0) ms)"
proof (induction ms rule: rev_induct)
  case Nil
  show ?case by (simp add: sel_inv_def)
next
  case (snoc x xs)
  let ?sc = "entry_score ocr fname"
  obtain b h where st: "foldl (loop_body ocr fname) (None, 0) xs = (b, h)" by (cases "foldl (loop_body ocr fname) (None, 0) xs")
  from snoc st have inv: "sel_inv ?sc xs (b, h)" by simp
  have last: "foldl (loop_body ocr fname) (None, 0) (xs @ [x]) =
      (if ?sc x > h then (Some x, ?sc x) else (b, h))"
    by (simp add: st) (simp add: loop_body_entry_score)
  show ?case
  proof (cases "?sc x > h")
    case True
    have "\<forall>j<length (xs @ [x]). ?sc ((xs @ [x]) ! j) \<le> ?sc x"
      using inv True by (auto simp: sel_inv_def nth_append less_Suc_eq)
    moreover have "\<forall>j<length xs. ?sc ((xs @ [x]) ! j) < ?sc x"
      using inv True by (auto simp: sel_inv_def nth_append) 
    ultimately have "sel_inv ?sc (xs @ [x]) (Some x, ?sc x)"
      using True unfolding sel_inv_def
      by (auto intro!: exI[of _ "length xs"])
    then show ?thesis using True by (simp only: last if_True)
  next
    case False
    have a: "\<forall>j<length (xs @ [x]). ?sc ((xs @ [x]) ! j) \<le> h"
      using inv False by (auto simp: sel_inv_def nth_append less_Suc_eq)
    have b: "\<forall>m. b = Some m \<longrightarrow>
        0 < h \<and> (\<exists>i<length (xs @ [x]). (xs @ [x]) ! i = m \<and> ?sc m = h \<and> (\<forall>j<i. ?sc ((xs @ [x]) ! j) < h))"
    proof (intro allI impI)
      fix m assume "b = Some m"
      with inv obtain i where i: "0 < h" "i < length xs" "xs ! i = m" "?sc m = h" "\<forall>j<i. ?sc (xs ! j) < h"
        by (auto simp: sel_inv_def)
      then have "i < length (xs @ [x]) \<and> (xs @ [x]) ! i = m \<and> ?sc m = h \<and> (\<forall>j<i. ?sc ((xs @ [x]) ! j) < h)"
        by (auto simp: nth_append)
      with i(1) show "0 < h \<and> (\<exists>i<length (xs @ [x]). (xs @ [x]) ! i = m \<and> ?sc m = h \<and> (\<forall>j<i. ?sc ((xs @ [x]) ! j) < h))"
        by blast
    qed
    have "sel_inv ?sc (xs @ [x]) (b, h)"
      unfolding sel_inv_def using a b inv by (simp add: sel_inv_def)
    then show ?thesis using False by (simp only: last if_False)
  qed
qed


lemma findMatchingGame_None_iff:
  "(findMatchingGame ocr fn ms = None) =
     (\<forall>m\<in>set ms. entry_score (normalizedOcr_of ocr) (normalizedFilename_of fn) m = 0)"
proof -
  let ?sc = "entry_score (normalizedOcr_of ocr) (normalizedFilename_of fn)"
  obtain b h where st: "foldl (loop_body (normalizedOcr_of ocr) (normalizedFilename_of fn)) (None, 0) ms = (b, h)"
    by (cases "foldl (loop_body (normalizedOcr_of ocr) (normalizedFilename_of fn)) (None, 0) ms")
  have inv: "sel_inv ?sc ms (b, h)" using sel_inv_foldl[of "normalizedOcr_of ocr" "normalizedFilename_of fn" ms] st by simp
  have r: "findMatchingGame ocr fn ms = b" by (simp add: findMatchingGame_def st)
  show ?thesis
  proof
    assume "findMatchingGame ocr fn ms = None"
    with r inv have "h = 0" "\<forall>j<length ms. ?sc (ms ! j) \<le> h" by (auto simp: sel_inv_def)
    then show "\<forall>m\<in>set ms. ?sc m = 0" by (auto simp: in_set_conv_nth)
  next
    assume z: "\<forall>m\<in>set ms. ?sc m = 0"
    show "findMatchingGame ocr fn ms = None"
    proof (cases b)
      case None
      with r show ?thesis by simp
    next
      case (Some m)
      with inv obtain i where "0 < h" "i < length ms" "ms ! i = m" "?sc m = h" by (auto simp: sel_inv_def)
      with z show ?thesis by (metis nth_mem less_numeral_extra(3))
    qed
  qed
qed

lemma findMatchingGame_Some_iff:
  "(findMatchingGame ocr fn ms = Some m) =
     (\<exists>i<length ms. ms ! i = m
        \<and> 0 < entry_score (normalizedOcr_of ocr) (normalizedFilename_of fn) m
        \<and> (\<forall>j<i. entry_score (normalizedOcr_of ocr) (normalizedFilename_of fn) (ms ! j)
                    < entry_score (normalizedOcr_of ocr) (normalizedFilename_of fn) m)
        \<and> (\<forall>j<length ms. entry_score (normalizedOcr_of ocr) (normalizedFilename_of fn) (ms ! j)
                    \<le> entry_score (normalizedOcr_of ocr) (normalizedFilename_of fn) m))"
  (is "?L = ?R")
proof -
  let ?sc = "entry_score (normalizedOcr_of ocr) (normalizedFilename_of fn)"
  obtain b h where st: "foldl (loop_body (normalizedOcr_of ocr) (normalizedFilename_of fn)) (None, 0) ms = (b, h)"
    by (cases "foldl (loop_body (normalizedOcr_of ocr) (normalizedFilename_of fn)) (None, 0) ms")
  have inv: "sel_inv ?sc ms (b, h)" using sel_inv_foldl[of "normalizedOcr_of ocr" "normalizedFilename_of fn" ms] st by simp
  have r: "findMatchingGame ocr fn ms = b" by (simp add: findMatchingGame_def st)
  show ?thesis
  proof
    assume ?L
    with r have "b = Some m" by simp
    with inv show ?R unfolding sel_inv_def by auto
  next
    assume ?R
    then obtain i where i: "i < length ms" "ms ! i = m" "0 < ?sc m"
      "\<forall>j<i. ?sc (ms ! j) < ?sc m" "\<forall>j<length ms. ?sc (ms ! j) \<le> ?sc m" by blast
    have all: "\<forall>j<length ms. ?sc (ms ! j) \<le> h" using inv by (simp add: sel_inv_def)
    with i have hpos: "0 < h" by (metis leD le_zero_eq not_gr_zero)
    with inv obtain m' where b: "b = Some m'" by (cases b) (auto simp: sel_inv_def)
    with inv obtain k where k: "k < length ms" "ms ! k = m'" "?sc m' = h" "\<forall>j<k. ?sc (ms ! j) < h"
      by (auto simp: sel_inv_def)
    from all i have "?sc m \<le> h" by auto
    moreover from i k have "h \<le> ?sc m" by auto
    ultimately have eq: "?sc m = h" by simp
    have "\<not> k < i" using i k eq by auto
    moreover have "\<not> i < k" using i k eq by auto
    ultimately have "k = i" by simp
    with i k b r show ?L by simp
  qed
qed

lemma no_containment_score:
  assumes "\<not> includes_str nm ocr" "\<not> includes_str ocr nm"
          "\<not> includes_str nm fname" "\<not> includes_str fname nm"
  shows "currentScore ocr fname nm = 0"
  using assms unfolding currentScore_def Let_def by simp

text \<open>
  C2. \<open>findMatchingGame\<close> returns the entry at the first position whose score is positive,
  strictly greater than the score of every earlier entry and not exceeded by any entry
  of the list, so that a later entry with an equal score never replaces it; it returns
  nothing exactly when every entry scores 0, in particular when no entry's normalized name
  contains, or is contained in, the normalized OCR text or the normalized filename core.
\<close>

theorem findMatchingGame_selection:
  "((findMatchingGame ocr fn ms = None) =
     (\<forall>m\<in>set ms. entry_score (normalizedOcr_of ocr) (normalizedFilename_of fn) m = 0)) \<and>
   ((findMatchingGame ocr fn ms = Some m) =
     (\<exists>i<length ms. ms ! i = m
        \<and> 0 < entry_score (normalizedOcr_of ocr) (normalizedFilename_of fn) m
        \<and> (\<forall>j<i. entry_score (normalizedOcr_of ocr) (normalizedFilename_of fn) (ms ! j)
                    < entry_score (normalizedOcr_of ocr) (normalizedFilename_of fn) m)
        \<and> (\<forall>j<length ms. entry_score (normalizedOcr_of ocr) (normalizedFilename_of fn) (ms ! j)
                    \<le> entry_score (normalizedOcr_of ocr) (normalizedFilename_of fn) m))) \<and>
   ((\<forall>e\<in>set ms.
       \<not> includes_str (normalizeText (Some (gameName e))) (normalizedOcr_of ocr)
     \<and> \<not> includes_str (normalizedOcr_of ocr) (normalizeText (Some (gameName e)))
     \<and> \<not> includes_str (normalizeText (Some (gameName e))) (normalizedFilename_of fn)
     \<and> \<not> includes_str (normalizedFilename_of fn) (normalizeText (Some (gameName e))))
    \<longrightarrow> findMatchingGame ocr fn ms = None)"
proof (intro conjI impI)
  show "(findMatchingGame ocr fn ms = None) =
     (\<forall>m\<in>set ms. entry_score (normalizedOcr_of ocr) (normalizedFilename_of fn) m = 0)"
    by (rule findMatchingGame_None_iff)
next
  show "(findMatchingGame ocr fn ms = Some m) =
     (\<exists>i<length ms. ms ! i = m
        \<and> 0 < entry_score (normalizedOcr_of ocr) (normalizedFilename_of fn) m
        \<and> (\<forall>j<i. entry_score (normalizedOcr_of ocr) (normalizedFilename_of fn) (ms ! j)
                    < entry_score (normalizedOcr_of ocr) (normalizedFilename_of fn) m)
        \<and> (\<forall>j<length ms. entry_score (normalizedOcr_of ocr) (normalizedFilename_of fn) (ms ! j)
                    \<le> entry_score (normalizedOcr_of ocr) (normalizedFilename_of fn) m))"
    by (rule findMatchingGame_Some_iff)
next
  assume "\<forall>e\<in>set ms.
       \<not> includes_str (normalizeText (Some (gameName e))) (normalizedOcr_of ocr)
     \<and> \<not> includes_str (normalizedOcr_of ocr) (normalizeText (Some (gameName e)))
     \<and> \<not> includes_str (normalizeText (Some (gameName e))) (normalizedFilename_of fn)
     \<and> \<not> includes_str (normalizedFilename_of fn) (normalizeText (Some (gameName e)))"
  then show "findMatchingGame ocr fn ms = None"
    by (simp add: findMatchingGame_None_iff entry_score_def Let_def no_containment_score)
qed

theorem findMatchingGame_selection_witness:
  "findMatchingGame (Some ''Game Deluxe'') ''540x540-foo.webp''
      [ex_game_v2, ex_game, ex_game_again] = Some ex_game \<and>
   entry_score (normalizedOcr_of (Some ''Game Deluxe'')) (normalizedFilename_of ''540x540-foo.webp'')
      ex_game_again = 24 \<and>
   findMatchingGame (Some ''Lucky Seven'') ''540x540-foo.webp''
      [ex_game_v2, ex_game, ex_game_again] = None"
proof -
  let ?ms = "[ex_game_v2, ex_game, ex_game_again]"
  let ?sc = "entry_score (normalizedOcr_of (Some ''Game Deluxe''))
                (normalizedFilename_of ''540x540-foo.webp'')"
  have s0: "?sc ex_game_v2 = 0" by code_simp
  have s1: "?sc ex_game = 24" by code_simp
  have s2: "?sc ex_game_again = 24" by code_simp
  have "1 < length ?ms \<and> ?ms ! 1 = ex_game \<and> 0 < ?sc ex_game
        \<and> (\<forall>j<1. ?sc (?ms ! j) < ?sc ex_game)
        \<and> (\<forall>j<length ?ms. ?sc (?ms ! j) \<le> ?sc ex_game)"
    by (simp add: s0 s1 s2 less_Suc_eq nth_Cons' numeral_3_eq_3)
  then have ex: "\<exists>i<length ?ms. ?ms ! i = ex_game \<and> 0 < ?sc ex_game
        \<and> (\<forall>j<i. ?sc (?ms ! j) < ?sc ex_game)
        \<and> (\<forall>j<length ?ms. ?sc (?ms ! j) \<le> ?sc ex_game)"
    by blast
  have a: "findMatchingGame (Some ''Game Deluxe'') ''540x540-foo.webp'' ?ms = Some ex_game"
    using findMatchingGame_selection[of "Some ''Game Deluxe''" "''540x540-foo.webp''" ?ms ex_game] ex
    by blast
  have none: "\<forall>e\<in>set ?ms.
       \<not> includes_str (normalizeText (Some (gameName e))) (normalizedOcr_of (Some ''Lucky Seven''))
     \<and> \<not> includes_str (normalizedOcr_of (Some ''Lucky Seven'')) (normalizeText (Some (gameName e)))
     \<and> \<not> includes_str (normalizeText (Some (gameName e))) (normalizedFilename_of ''540x540-foo.webp'')
     \<and> \<not> includes_str (normalizedFilename_of ''540x540-foo.webp'') (normalizeText (Some (gameName e)))"
    by code_simp
  have b: "findMatchingGame (Some ''Lucky Seven'') ''540x540-foo.webp'' ?ms = None"
    using findMatchingGame_selection[of "Some ''Lucky Seven''" "''540x540-foo.webp''" ?ms ex_game] none
    by blast
  from a s2 b show ?thesis by simp
qed

subsection \<open>The filename core\<close>

lemma lastIndexOf_from_absent: "c \<notin> set s \<Longrightarrow> lastIndexOf_from s c i found = found"
  by (induction s arbitrary: i) auto

lemma filenameGamePart_no_dot:
  "CHR ''.'' \<notin> set fn \<Longrightarrow> filenameGamePart fn = replace_dimension_prefix fn"
  by (simp add: filenameGamePart_def stem_or_whole_def lastIndexOf_def lastIndexOf_from_absent
        substring_def)

text \<open>
  C10. For a filename without any dot, the filename core used for matching is the whole
  filename without a leading \<open><digits>x<digits>-\<close> prefix, not the empty string that
  cutting at the last dot would give.
\<close>

theorem findMatchingGame_filename_without_dot:
  "CHR ''.'' \<notin> set originalFilename \<Longrightarrow>
     substring originalFilename 0 (lastIndexOf originalFilename (CHR ''.'')) = [] \<and>
     filenameGamePart originalFilename = replace_dimension_prefix originalFilename \<and>
     findMatchingGame ocr originalFilename mappings =
       fst (foldl (loop_body (normalizedOcr_of ocr)
                     (normalizeText (Some (replace_dimension_prefix originalFilename))))
              (None, 0) mappings)"
  by (simp add: findMatchingGame_def normalizedFilename_of_def filenameGamePart_no_dot
        lastIndexOf_def lastIndexOf_from_absent substring_def)

theorem findMatchingGame_filename_without_dot_witness:
  "CHR ''.'' \<notin> set ''540x540-GameV2'' \<and>
   filenameGamePart ''540x540-GameV2'' = ''GameV2'' \<and>
   findMatchingGame None ''540x540-GameV2'' [ex_game, ex_game_v2] = Some ex_game_v2"
proof -
  have h: "CHR ''.'' \<notin> set ''540x540-GameV2''" by simp
  have r: "replace_dimension_prefix ''540x540-GameV2'' = ''GameV2''" by code_simp
  have m: "fst (foldl (loop_body (normalizedOcr_of None) (normalizeText (Some ''GameV2'')))
              (None, 0) [ex_game, ex_game_v2]) = Some ex_game_v2" by code_simp
  from findMatchingGame_filename_without_dot[OF h, of None "[ex_game, ex_game_v2]"] h r m
  show ?thesis by simp
qed

subsection \<open>Terminal statuses and their fields\<close>

lemma update_image_all:
  "\<forall>img\<in>set imgs. P img \<Longrightarrow> (\<And>img. P img \<Longrightarrow> P (f img)) \<Longrightarrow>
     \<forall>img\<in>set (update_image i f imgs). P img"
  by (auto simp: update_image_def)

lemma new_images_all:
  "(\<And>i f. P (new_image k i f)) \<Longrightarrow> \<forall>img\<in>set (new_images k files). P img"
  by (auto simp: new_images_def)

lemma truthy_or_else: "d \<noteq> [] \<Longrightarrow> truthy (Some (or_else x d))"
  by (auto simp: truthy_def or_else_def split: option.splits)

lemma item_ok_new_image: "item_ok (new_image k i f)"
  by (auto simp: item_ok_def new_image_def truthy_def getImageMetadata_def split: option.splits)

lemma item_ok_reset: "item_ok (reset_image img)"
  by (simp add: item_ok_def reset_image_def)

lemma item_ok_step:
  assumes "\<forall>img\<in>set (processedImages s). item_ok img"
  shows "\<forall>img\<in>set (processedImages (step e s)). item_ok img"
proof (cases e)
  case (PressEnterInKeyField x)
  with assms show ?thesis by (simp add: step_def setApiKey_enter_def)
next
  case (ClickSetKey x)
  with assms show ?thesis
    by (auto simp: step_def setApiKey_click_def Let_def item_ok_def)
next
  case (EditMappings x)
  with assms show ?thesis by (simp add: step_def)
next
  case SelectFiles
  with assms show ?thesis by (simp add: step_def handleFilesSelected_call_def)
next
  case (FilesLoaded k files)
  with assms new_images_all[of item_ok k files] show ?thesis
    by (auto simp: step_def handleFilesSelected_append_def item_ok_new_image)
next
  case ClickStartAll
  with assms show ?thesis
    by (auto simp: step_def handleStartAllProcessing_def Let_def case_prod_beta item_ok_reset)
next
  case (ClickRetry i)
  with assms update_image_all[of "processedImages s" item_ok reset_image i] show ?thesis
    by (auto simp: step_def handleRetry_def Let_def item_ok_reset)
next
  case ClickClearAll
  with assms show ?thesis by (simp add: step_def handleClearAll_def)
next
  case RunEffect
  have a: "\<forall>img\<in>set (update_image i (\<lambda>img. img\<lparr>status := Api_key_missing,
                              errorMessage := Some ''API Key is missing. OCR skipped.''\<rparr>) (processedImages s)). item_ok img" for i
    using assms by (intro update_image_all) (auto simp: item_ok_def truthy_def)
  have b: "\<forall>img\<in>set (update_image i (\<lambda>img. img\<lparr>status := Mapping_parse_error,
                              errorMessage := Some ''No valid mappings loaded. Cannot process.''\<rparr>) (processedImages s)). item_ok img" for i
    using assms by (intro update_image_all) (auto simp: item_ok_def truthy_def)
  have c: "\<forall>img\<in>set (update_image i (\<lambda>img. img\<lparr>status := Ocr_extracting\<rparr>) (processedImages s)). item_ok img" for i
    using assms by (intro update_image_all) (auto simp: item_ok_def truthy_def)
  from RunEffect assms a b c show ?thesis
    by (simp add: step_def processing_effect_def processSingleImage_start_def split: option.splits)
next
  case (OcrSettled outcome)
  have a: "\<forall>img\<in>set (update_image i (\<lambda>img. img\<lparr>ocrText := Some (or_else t NO_TEXT_DETECTED_MARKER),
                                  status := Name_matching\<rparr>) (processedImages s)). item_ok img" for i t
    using assms by (intro update_image_all) (auto simp: item_ok_def)
  have b: "\<forall>img\<in>set (update_image i (\<lambda>img. img\<lparr>status := Error,
                                  errorMessage := Some (or_else message ''Failed OCR extraction.''),
                                  ocrText := Some ''OCR_FAILED''\<rparr>) (processedImages s)). item_ok img" for i message
    using assms by (intro update_image_all) (auto simp: item_ok_def truthy_or_else)
  from OcrSettled assms a b show ?thesis
    by (simp add: step_def processSingleImage_ocr_def split: task.splits ocr_outcome.splits)
next
  case MatchNames
  have a: "\<forall>img\<in>set (update_image i (\<lambda>img. img\<lparr>status := Completed,
                                  suggestedName := Some (base @ ''.webp''),
                                  gameProvider := p,
                                  errorMessage := None\<rparr>) (processedImages s)). item_ok img" for i base p
    using assms by (intro update_image_all) (auto simp: item_ok_def suffix_def)
  have b: "\<forall>img\<in>set (update_image i (\<lambda>img. img\<lparr>status := Error,
                                  errorMessage := Some ''Game not found in mappings.''\<rparr>) (processedImages s)). item_ok img" for i
    using assms by (intro update_image_all) (auto simp: item_ok_def truthy_def)
  from MatchNames assms a b show ?thesis
    by (simp add: step_def processSingleImage_match_def split: task.splits option.splits)
next
  case RunFinally
  with assms show ?thesis by (simp add: step_def processSingleImage_finally_def split: task.splits)
next
  case ClickDownloadZip
  with assms show ?thesis by (simp add: step_def createAndDownloadZip_start_def)
next
  case (ZipSettled x)
  with assms show ?thesis by (simp add: step_def createAndDownloadZip_settled_def)
qed

subsection \<open>Geometry\<close>

lemma geometry_ok_keeps: "keeps_geometry f \<Longrightarrow> geometry_ok img \<Longrightarrow> geometry_ok (f img)"
  by (simp add: keeps_geometry_def geometry_ok_def)

lemma geometry_ok_new_image: "geometry_ok (new_image k i f)"
  by (auto simp: geometry_ok_def type_of_size_def new_image_def getImageMetadata_def
        split: option.splits)

lemma keeps_geometry_reset: "keeps_geometry reset_image"
  by (simp add: keeps_geometry_def reset_image_def)

lemma geometry_ok_step:
  assumes "\<forall>img\<in>set (processedImages s). geometry_ok img"
  shows "\<forall>img\<in>set (processedImages (step e s)). geometry_ok img"
proof -
  have upd: "keeps_geometry f \<Longrightarrow> \<forall>img\<in>set (update_image i f (processedImages s)). geometry_ok img" for i f
    using assms by (intro update_image_all) (auto intro: geometry_ok_keeps)
  show ?thesis
  proof (cases e)
    case (PressEnterInKeyField x)
    with assms show ?thesis by (simp add: step_def setApiKey_enter_def)
  next
    case (ClickSetKey x)
    with assms show ?thesis
      by (auto simp: step_def setApiKey_click_def Let_def geometry_ok_def)
  next
    case (EditMappings x)
    with assms show ?thesis by (simp add: step_def)
  next
    case SelectFiles
    with assms show ?thesis by (simp add: step_def handleFilesSelected_call_def)
  next
    case (FilesLoaded k files)
    with assms new_images_all[of geometry_ok k files] show ?thesis
      by (auto simp: step_def handleFilesSelected_append_def geometry_ok_new_image)
  next
    case ClickStartAll
    with assms show ?thesis
      by (auto simp: step_def handleStartAllProcessing_def Let_def case_prod_beta
            geometry_ok_keeps[OF keeps_geometry_reset])
  next
    case (ClickRetry i)
    with assms upd[OF keeps_geometry_reset] show ?thesis
      by (auto simp: step_def handleRetry_def Let_def)
  next
    case ClickClearAll
    with assms show ?thesis by (simp add: step_def handleClearAll_def)
  next
    case RunEffect
    with assms show ?thesis
      by (auto simp: step_def processing_effect_def processSingleImage_start_def
            intro!: upd simp: keeps_geometry_def split: option.splits)
  next
    case (OcrSettled outcome)
    with assms show ?thesis
      by (auto simp: step_def processSingleImage_ocr_def
            intro!: upd simp: keeps_geometry_def split: task.splits ocr_outcome.splits)
  next
    case MatchNames
    with assms show ?thesis
      by (auto simp: step_def processSingleImage_match_def
            intro!: upd simp: keeps_geometry_def split: task.splits option.splits)
  next
    case RunFinally
    with assms show ?thesis by (simp add: step_def processSingleImage_finally_def split: task.splits)
  next
    case ClickDownloadZip
    with assms show ?thesis by (simp add: step_def createAndDownloadZip_start_def)
  next
    case (ZipSettled x)
    with assms show ?thesis by (simp add: step_def createAndDownloadZip_settled_def)
  qed
qed

subsection \<open>Ids stay distinct\<close>

lemma map_id_update_image:
  "(\<And>img. id_img (f img) = id_img img) \<Longrightarrow> map id_img (update_image i f imgs) = map id_img imgs"
  by (induction imgs) (auto simp: update_image_def)

lemma map_id_cond:
  "(\<And>img. id_img (f img) = id_img img) \<Longrightarrow>
     map id_img (map (\<lambda>img. if C img then f img else img) imgs) = map id_img imgs"
  by (induction imgs) auto

lemma id_img_new_image: "id_img (new_image k i f) = (loaded_at f, i, file_name f)"
  by (auto simp: new_image_def split: option.splits prod.splits)

lemma map_id_new_images: "map id_img (new_images k files) = new_ids files"
  by (simp add: new_images_def new_ids_def id_img_new_image split_def)

lemma distinct_new_ids: "distinct (new_ids files)"
proof -
  have "map (\<lambda>i. fst (snd i)) (new_ids files) = [0 ..< length files]"
    unfolding new_ids_def by (simp add: split_def o_def)
  then show ?thesis by (metis distinct_upt distinct_map)
qed

lemma map_id_step:
  "map id_img (processedImages (step e s)) = []
   \<or> map id_img (processedImages (step e s)) = map id_img (processedImages s)
   \<or> (\<exists>k files. e = FilesLoaded k files \<and>
        map id_img (processedImages (step e s)) = map id_img (processedImages s) @ new_ids files)"
proof (cases e)
  case (ClickSetKey x)
  then show ?thesis
    by (simp add: step_def setApiKey_click_def Let_def map_id_cond o_def)
next
  case (FilesLoaded k files)
  then show ?thesis by (simp add: step_def handleFilesSelected_append_def map_id_new_images)
next
  case ClickStartAll
  then show ?thesis
    by (simp add: step_def handleStartAllProcessing_def Let_def case_prod_beta map_id_cond reset_image_def)
next
  case (ClickRetry i)
  then show ?thesis
    by (simp add: step_def handleRetry_def Let_def map_id_update_image reset_image_def)
next
  case RunEffect
  then show ?thesis
    by (simp add: step_def processing_effect_def processSingleImage_start_def map_id_update_image
          split: option.splits)
next
  case (OcrSettled outcome)
  then show ?thesis
    by (simp add: step_def processSingleImage_ocr_def map_id_update_image
          split: task.splits ocr_outcome.splits)
next
  case MatchNames
  then show ?thesis
    by (simp add: step_def processSingleImage_match_def map_id_update_image
          split: task.splits option.splits)
qed (simp_all add: step_def setApiKey_enter_def handleFilesSelected_call_def handleClearAll_def
       processSingleImage_finally_def createAndDownloadZip_start_def createAndDownloadZip_settled_def
       split: task.splits)

lemma ids_ok_step:
  assumes "ids_ok s" "env_ok e s"
  shows "ids_ok (step e s)"
proof -
  from map_id_step[of e s] consider
      "map id_img (processedImages (step e s)) = []"
    | "map id_img (processedImages (step e s)) = map id_img (processedImages s)"
    | k files where "e = FilesLoaded k files"
        "map id_img (processedImages (step e s)) = map id_img (processedImages s) @ new_ids files"
    by blast
  then show ?thesis
  proof cases
    case 1
    then show ?thesis by (simp add: ids_ok_def)
  next
    case 2
    with assms show ?thesis by (simp add: ids_ok_def)
  next
    case 3
    from assms(2) 3(1) have "set (new_ids files) \<inter> set (map id_img (processedImages s)) = {}"
      by (auto simp: env_ok_def list_all_iff list_ex_iff)
    with assms(1) 3(2) distinct_new_ids[of files] show ?thesis
      by (auto simp: ids_ok_def)
  qed
qed

subsection \<open>The run flag needs items\<close>

lemma flag_ok_step:
  assumes "flag_ok s"
  shows "flag_ok (step e s)"
proof (cases e)
  case (ClickSetKey x)
  with assms show ?thesis by (auto simp: flag_ok_def step_def setApiKey_click_def Let_def)
next
  case (FilesLoaded k files)
  with assms show ?thesis by (auto simp: flag_ok_def step_def handleFilesSelected_append_def)
next
  case ClickStartAll
  with assms show ?thesis
    by (auto simp: flag_ok_def step_def handleStartAllProcessing_def Let_def case_prod_beta)
next
  case (ClickRetry i)
  with assms show ?thesis
    by (auto simp: flag_ok_def step_def handleRetry_def Let_def update_image_def list_ex_iff)
next
  case RunEffect
  with assms show ?thesis
    by (auto simp: flag_ok_def step_def processing_effect_def processSingleImage_start_def
          update_image_def split: option.splits)
next
  case (OcrSettled outcome)
  with assms show ?thesis
    by (auto simp: flag_ok_def step_def processSingleImage_ocr_def update_image_def
          split: task.splits ocr_outcome.splits)
next
  case MatchNames
  with assms show ?thesis
    by (auto simp: flag_ok_def step_def processSingleImage_match_def update_image_def
          split: task.splits option.splits)
next
  case RunFinally
  with assms show ?thesis
    by (auto simp: flag_ok_def step_def processSingleImage_finally_def split: task.splits)
qed (use assms in \<open>auto simp: flag_ok_def step_def setApiKey_enter_def handleFilesSelected_call_def
       handleClearAll_def createAndDownloadZip_start_def createAndDownloadZip_settled_def\<close>)


subsection \<open>Only the item of the pending call is in flight\<close>

lemma in_flight_new_image: "\<not> in_flight (new_image k i f)"
  by (auto simp: in_flight_def new_image_def split: option.splits prod.splits)

lemma in_flight_reset: "\<not> in_flight (reset_image img)"
  by (simp add: in_flight_def reset_image_def)

lemma task_ok_Idle: "task_ok s \<Longrightarrow> \<not> isCurrentlyProcessingImage s \<Longrightarrow>
    task s = Idle \<and> (\<forall>img\<in>set (processedImages s). \<not> in_flight img)"
  by (auto simp: task_ok_def current_id_def)

lemma flight_update_same:
  assumes "\<forall>img\<in>set imgs. in_flight img \<longrightarrow> i = id_img img"
    and "\<And>img. id_img (f img) = id_img img"
  shows "\<forall>img\<in>set (update_image i f imgs). in_flight img \<longrightarrow> i = id_img img"
  using assms by (auto simp: update_image_def)

lemma flight_update_done:
  assumes "\<forall>img\<in>set imgs. in_flight img \<longrightarrow> i = id_img img"
    and "\<And>img. \<not> in_flight (f img)"
  shows "\<forall>img\<in>set (update_image i f imgs). \<not> in_flight img"
  using assms by (auto simp: update_image_def)

lemma task_ok_busy:
  "task_ok s \<Longrightarrow> current_id (task s) = Some i \<Longrightarrow>
     isCurrentlyProcessingImage s \<and> (\<forall>img\<in>set (processedImages s). in_flight img \<longrightarrow> i = id_img img)"
  by (auto simp: task_ok_def current_id_def split: task.splits)

lemma task_ok_effect:
  assumes "task_ok s"
  shows "task_ok (processing_effect s)"
proof (cases "isCurrentlyProcessingImage s \<or> \<not> startProcessingFlag s \<or> isZipping s")
  case True
  with assms show ?thesis by (simp add: processing_effect_def)
next
  case False
  then have np: "\<not> isCurrentlyProcessingImage s" by simp
  from task_ok_Idle[OF assms np] have idle: "task s = Idle"
    and quiet: "\<forall>img\<in>set (processedImages s). \<not> in_flight img" by simp_all
  show ?thesis
  proof (cases "find (\<lambda>img. status img = Queued) (processedImages s)")
    case None
    with False assms show ?thesis
      by (auto simp: processing_effect_def task_ok_def)
  next
    case (Some nxt)
    from quiet have q: "\<forall>img\<in>set (processedImages s). in_flight img \<longrightarrow> id_img nxt = id_img img"
      by simp
    have a: "\<forall>img\<in>set (update_image (id_img nxt) (\<lambda>img. img\<lparr>status := Api_key_missing,
               errorMessage := Some ''API Key is missing. OCR skipped.''\<rparr>) (processedImages s)).
             \<not> in_flight img"
      by (rule flight_update_done[OF q]) (simp add: in_flight_def)
    have b: "\<forall>img\<in>set (update_image (id_img nxt) (\<lambda>img. img\<lparr>status := Mapping_parse_error,
               errorMessage := Some ''No valid mappings loaded. Cannot process.''\<rparr>) (processedImages s)).
             \<not> in_flight img"
      by (rule flight_update_done[OF q]) (simp add: in_flight_def)
    have c: "\<forall>img\<in>set (update_image (id_img nxt) (\<lambda>img. img\<lparr>status := Ocr_extracting\<rparr>)
               (processedImages s)). in_flight img \<longrightarrow> id_img nxt = id_img img"
      by (rule flight_update_same[OF q]) simp
    from Some False a b c show ?thesis
      by (simp add: processing_effect_def processSingleImage_start_def task_ok_def current_id_def)
  qed
qed

lemma task_ok_ocr:
  assumes "task_ok s"
  shows "task_ok (processSingleImage_ocr outcome s)"
proof (cases "task s")
  case (AwaitingOcr i name ms)
  then have "current_id (task s) = Some i" by (simp add: current_id_def)
  from task_ok_busy[OF assms this] have busy: "isCurrentlyProcessingImage s"
    and q: "\<forall>img\<in>set (processedImages s). in_flight img \<longrightarrow> i = id_img img" by simp_all
  show ?thesis
  proof (cases outcome)
    case (OcrReturned t)
    have "\<forall>img\<in>set (update_image i (\<lambda>img. img\<lparr>ocrText := Some (or_else t NO_TEXT_DETECTED_MARKER),
               status := Name_matching\<rparr>) (processedImages s)). in_flight img \<longrightarrow> i = id_img img"
      by (rule flight_update_same[OF q]) simp
    with AwaitingOcr OcrReturned busy show ?thesis
      by (simp add: processSingleImage_ocr_def task_ok_def current_id_def)
  next
    case (OcrThrew message)
    have "\<forall>img\<in>set (update_image i (\<lambda>img. img\<lparr>status := Error,
               errorMessage := Some (or_else message ''Failed OCR extraction.''),
               ocrText := Some ''OCR_FAILED''\<rparr>) (processedImages s)). \<not> in_flight img"
      by (rule flight_update_done[OF q]) (simp add: in_flight_def)
    with AwaitingOcr OcrThrew busy show ?thesis
      by (simp add: processSingleImage_ocr_def task_ok_def current_id_def)
  qed
qed (use assms in \<open>simp_all add: processSingleImage_ocr_def\<close>)

lemma task_ok_match:
  assumes "task_ok s"
  shows "task_ok (processSingleImage_match s)"
proof (cases "task s")
  case (MatchingNext i name ms t)
  then have "current_id (task s) = Some i" by (simp add: current_id_def)
  from task_ok_busy[OF assms this] have busy: "isCurrentlyProcessingImage s"
    and q: "\<forall>img\<in>set (processedImages s). in_flight img \<longrightarrow> i = id_img img" by simp_all
  show ?thesis
  proof (cases "findMatchingGame t name ms")
    case None
    have "\<forall>img\<in>set (update_image i (\<lambda>img. img\<lparr>status := Error,
               errorMessage := Some ''Game not found in mappings.''\<rparr>) (processedImages s)).
             \<not> in_flight img"
      by (rule flight_update_done[OF q]) (simp add: in_flight_def)
    with MatchingNext None busy show ?thesis
      by (simp add: processSingleImage_match_def task_ok_def current_id_def)
  next
    case (Some m)
    have "\<forall>img\<in>set (update_image i (\<lambda>img. img\<lparr>status := Completed,
               suggestedName := Some (sanitizeFilename (imsGameCode m) (imsGameCode m)
                                        default_maxLength @ ''.webp''),
               gameProvider := provider m, errorMessage := None\<rparr>) (processedImages s)).
             \<not> in_flight img"
      by (rule flight_update_done[OF q]) (simp add: in_flight_def)
    with MatchingNext Some busy show ?thesis
      by (simp add: processSingleImage_match_def task_ok_def current_id_def)
  qed
qed (use assms in \<open>simp_all add: processSingleImage_match_def\<close>)

lemma task_ok_step:
  assumes "task_ok s"
  shows "task_ok (step e s)"
proof (cases e)
  case (PressEnterInKeyField x)
  with assms show ?thesis by (simp add: task_ok_def step_def setApiKey_enter_def)
next
  case (ClickSetKey x)
  with assms show ?thesis
    by (auto simp: task_ok_def step_def setApiKey_click_def Let_def in_flight_def)
next
  case (EditMappings x)
  with assms show ?thesis by (simp add: task_ok_def step_def)
next
  case SelectFiles
  with assms show ?thesis by (simp add: task_ok_def step_def handleFilesSelected_call_def)
next
  case (FilesLoaded k files)
  with assms show ?thesis
    by (auto simp: task_ok_def step_def handleFilesSelected_append_def new_images_def
          in_flight_new_image)
next
  case ClickStartAll
  with assms show ?thesis
    by (auto simp: task_ok_def step_def handleStartAllProcessing_def Let_def case_prod_beta in_flight_reset)
next
  case (ClickRetry i)
  with assms show ?thesis
    by (auto simp: task_ok_def step_def handleRetry_def Let_def update_image_def in_flight_reset)
next
  case ClickClearAll
  show ?thesis
  proof (cases "clearDisabled s")
    case True
    with ClickClearAll assms show ?thesis by (simp add: step_def)
  next
    case False
    then have "\<not> isCurrentlyProcessingImage s" by (simp add: clearDisabled_def)
    with assms have "task s = Idle" by (simp add: task_ok_Idle)
    with ClickClearAll False show ?thesis
      by (simp add: step_def handleClearAll_def task_ok_def)
  qed
next
  case RunEffect
  with assms show ?thesis by (simp add: step_def task_ok_effect)
next
  case (OcrSettled outcome)
  with assms show ?thesis by (simp add: step_def task_ok_ocr)
next
  case MatchNames
  with assms show ?thesis by (simp add: step_def task_ok_match)
next
  case RunFinally
  show ?thesis
  proof (cases "task s")
    case Settled
    with assms RunFinally show ?thesis
      by (auto simp: step_def processSingleImage_finally_def task_ok_def current_id_def)
  qed (use assms RunFinally in \<open>simp_all add: step_def processSingleImage_finally_def\<close>)
next
  case ClickDownloadZip
  with assms show ?thesis by (simp add: task_ok_def step_def createAndDownloadZip_start_def)
next
  case (ZipSettled x)
  with assms show ?thesis by (simp add: task_ok_def step_def createAndDownloadZip_settled_def)
qed



subsection \<open>Reachable states\<close>

lemma reachable_invariants:
  "reachable s \<Longrightarrow>
     (\<forall>img\<in>set (processedImages s). item_ok img) \<and>
     (\<forall>img\<in>set (processedImages s). geometry_ok img) \<and>
     ids_ok s \<and> task_ok s \<and> flag_ok s"
proof (induction rule: reachable.induct)
  case (reachable_init keyFromEnv)
  show ?case
    by (simp add: init_state_def ids_ok_def task_ok_def flag_ok_def)
next
  case (reachable_step s e)
  then show ?case
    using item_ok_step[of s e] geometry_ok_step[of s e] ids_ok_step[of s e]
      task_ok_step[of s e] flag_ok_step[of s e]
    by blast
qed

lemma reachable_run: "reachable s \<Longrightarrow> run_ok es s \<Longrightarrow> reachable (run es s)"
  by (induction es arbitrary: s) (auto intro: reachable_step)



lemma reachable_any_run: "reachable_any s \<Longrightarrow> reachable_any (run es s)"
  by (induction es arbitrary: s) (auto intro: any_step)

subsection \<open>Starting a run\<close>

lemma parse_blank:
  "trim text = [] \<Longrightarrow>
     parseCustomMappings text = ([], ''Mapping data is empty. Paste your tab-separated table.'')"
  by (simp add: parseCustomMappings_def)

lemma start_no_key:
  "\<not> truthy (apiKey s) \<Longrightarrow> refused_with s msg_no_api_key"
  by (simp add: refused_with_def handleStartAllProcessing_def Let_def case_prod_beta)

lemma start_blank:
  "truthy (apiKey s) \<Longrightarrow> trim (pastedCustomMappings s) = [] \<Longrightarrow> refused_with s msg_mapping_empty"
  by (simp add: refused_with_def handleStartAllProcessing_def Let_def case_prod_beta)

lemma start_no_entries:
  "truthy (apiKey s) \<Longrightarrow> trim (pastedCustomMappings s) \<noteq> [] \<Longrightarrow>
   fst (parseCustomMappings (pastedCustomMappings s)) = [] \<Longrightarrow>
     \<exists>detail. refused_with s (msg_no_valid_entries @ detail)"
  by (simp add: refused_with_def handleStartAllProcessing_def Let_def case_prod_beta)

lemma start_none_eligible:
  "truthy (apiKey s) \<Longrightarrow> trim (pastedCustomMappings s) \<noteq> [] \<Longrightarrow>
   fst (parseCustomMappings (pastedCustomMappings s)) \<noteq> [] \<Longrightarrow>
   \<not> list_ex (\<lambda>img. eligible (status img)) (processedImages s) \<Longrightarrow>
     refused_with s (if processedImages s = [] then msg_no_images else msg_none_pending)"
  by (auto simp: refused_with_def handleStartAllProcessing_def Let_def case_prod_beta list_ex_iff filter_empty_conv)

lemma reasons_distinct:
  "distinct [msg_no_api_key, msg_mapping_empty, msg_no_images, msg_none_pending]"
  by (simp add: msg_no_api_key_def msg_mapping_empty_def msg_no_images_def msg_none_pending_def)

lemma reasons_distinct_entries:
  "msg_no_valid_entries @ detail \<notin> {msg_no_api_key, msg_mapping_empty, msg_no_images, msg_none_pending}"
  by (simp add: msg_no_api_key_def msg_mapping_empty_def msg_no_images_def msg_none_pending_def
        msg_no_valid_entries_def)

lemma start_blank_state:
  assumes "truthy (apiKey s)" "trim (pastedCustomMappings s) = []"
  shows "handleStartAllProcessing s =
     s\<lparr>startAttemptErrorMessage := Some msg_mapping_empty,
       mappingParseMessage := Some ''Mapping data is empty. Paste your tab-separated table.'',
       manualFilenameMappings := [],
       unusedMappingsMessage := None\<rparr>"
  using assms
  by (simp add: handleStartAllProcessing_def Let_def case_prod_beta parse_blank unused_mappings_message_def)

lemma start_blank_idem:
  assumes "truthy (apiKey s)" "trim (pastedCustomMappings s) = []"
  shows "handleStartAllProcessing (handleStartAllProcessing s) = handleStartAllProcessing s"
proof -
  let ?s' = "handleStartAllProcessing s"
  have k: "truthy (apiKey ?s')" and b: "trim (pastedCustomMappings ?s') = []"
    using assms by (simp_all add: start_blank_state)
  show ?thesis
    unfolding start_blank_state[OF k b] unfolding start_blank_state[OF assms] by simp
qed

lemma start_blank_funpow:
  assumes "truthy (apiKey s)" "trim (pastedCustomMappings s) = []"
  shows "(handleStartAllProcessing ^^ Suc n) s = handleStartAllProcessing s"
  by (induction n) (simp_all add: start_blank_idem[OF assms])





subsection \<open>The processing loop effect\<close>

lemma effect_selects:
  assumes "startProcessingFlag s" "\<not> isCurrentlyProcessingImage s" "\<not> isZipping s"
    "find (\<lambda>img. status img = Queued) (processedImages s) = Some nxt"
  shows "processing_effect s =
           processSingleImage_start nxt (manualFilenameMappings s)
             (s\<lparr>isCurrentlyProcessingImage := True\<rparr>)"
  using assms by (simp add: processing_effect_def)

lemma effect_idle:
  assumes "startProcessingFlag s" "\<not> isCurrentlyProcessingImage s" "\<not> isZipping s"
    "find (\<lambda>img. status img = Queued) (processedImages s) = None" "processedImages s \<noteq> []"
  shows "processing_effect s = s\<lparr>startProcessingFlag := False\<rparr>"
  using assms by (simp add: processing_effect_def)

lemma start_touches_one:
  assumes "distinct (map id_img imgs)" "k < length imgs"
  shows "update_image (id_img (imgs ! k)) f imgs = imgs[k := f (imgs ! k)]"
proof (rule nth_equalityI)
  show "length (update_image (id_img (imgs ! k)) f imgs) = length (imgs[k := f (imgs ! k)])"
    by (simp add: update_image_def)
next
  fix j assume "j < length (update_image (id_img (imgs ! k)) f imgs)"
  then have j: "j < length imgs" by (simp add: update_image_def)
  have "id_img (imgs ! j) = id_img (imgs ! k) \<Longrightarrow> j = k"
    using assms j by (metis distinct_conv_nth length_map nth_map)
  with j assms(2) show "update_image (id_img (imgs ! k)) f imgs ! j = imgs[k := f (imgs ! k)] ! j"
    by (auto simp: update_image_def nth_list_update)
qed

subsection \<open>The sample session, step by step\<close>

lemma ex_step_1:
  "step (FilesLoaded (Some ''key'') [ex_file_a, ex_file_b]) (init_state (Some ''key'')) = ex_loaded"
  by code_simp

lemma ex_step_2: "step (EditMappings ex_table) ex_loaded = ex_pasted"
  by code_simp

lemma ex_step_3: "step ClickStartAll ex_pasted = ex_started"
  by code_simp

lemma ex_step_4: "step RunEffect ex_started = ex_first_extracting"
  by code_simp

lemma ex_step_5:
  "step (OcrSettled (OcrReturned (Some ''GAME''))) ex_first_extracting = ex_first_matching"
  by code_simp

lemma ex_step_6: "step MatchNames ex_first_matching = ex_first_done"
  by code_simp

lemma ex_step_7: "step RunFinally ex_first_done = ex_between"
  by code_simp

lemma ex_step_8: "step RunEffect ex_between = ex_second_extracting"
  by code_simp

lemma ex_step_9: "step (OcrSettled (OcrThrew None)) ex_second_extracting = ex_second_failed"
  by code_simp

lemma ex_step_10: "step RunFinally ex_second_failed = ex_drained"
  by code_simp


lemma reachable_next: "reachable s \<Longrightarrow> env_ok e s \<Longrightarrow> step e s = s' \<Longrightarrow> reachable s'"
  using reachable_step by blast

lemma ex_reachable_loaded: "reachable ex_loaded"
  by (rule reachable_next[OF reachable_init _ ex_step_1]) (simp add: env_ok_def init_state_def list_all_iff)

lemma ex_reachable_pasted: "reachable ex_pasted"
  by (rule reachable_next[OF ex_reachable_loaded _ ex_step_2]) (simp add: env_ok_def)

lemma ex_reachable_started: "reachable ex_started"
  by (rule reachable_next[OF ex_reachable_pasted _ ex_step_3]) (simp add: env_ok_def)

lemma ex_reachable_first_extracting: "reachable ex_first_extracting"
  by (rule reachable_next[OF ex_reachable_started _ ex_step_4]) (simp add: env_ok_def)

lemma ex_reachable_first_matching: "reachable ex_first_matching"
  by (rule reachable_next[OF ex_reachable_first_extracting _ ex_step_5]) (simp add: env_ok_def)

lemma ex_reachable_first_done: "reachable ex_first_done"
  by (rule reachable_next[OF ex_reachable_first_matching _ ex_step_6]) (simp add: env_ok_def)

lemma ex_reachable_between: "reachable ex_between"
  by (rule reachable_next[OF ex_reachable_first_done _ ex_step_7]) (simp add: env_ok_def)

lemma ex_reachable_second_extracting: "reachable ex_second_extracting"
  by (rule reachable_next[OF ex_reachable_between _ ex_step_8]) (simp add: env_ok_def)

lemma ex_reachable_second_failed: "reachable ex_second_failed"
  by (rule reachable_next[OF ex_reachable_second_extracting _ ex_step_9]) (simp add: env_ok_def)

lemma ex_reachable_drained: "reachable ex_drained"
  by (rule reachable_next[OF ex_reachable_second_failed _ ex_step_10]) (simp add: env_ok_def)


lemma ex_items_drained: "processedImages ex_drained = [ex_a_done, ex_b_failed]"
  by (simp add: ex_drained_def ex_second_failed_def)







lemma ex_twice_id_not_fresh: "\<not> env_ok (FilesLoaded (Some ''key'') [ex_file_a]) ex_once"
  by code_simp






subsection \<open>Items in a terminal status\<close>

text \<open>
  C5. In every reachable state (uploads, processing, retry, start of a run, setting the
  key, clearing, archiving), an item with status Completed has a non-empty suggested name,
  and an item with status Error, ApiKeyMissing or MappingError has a non-empty error
  message.
\<close>

theorem terminal_status_fields:
  "reachable s \<Longrightarrow> img \<in> set (processedImages s) \<Longrightarrow>
     (status img = Completed \<longrightarrow> (\<exists>n. suggestedName img = Some n \<and> n \<noteq> [])) \<and>
     (status img = Error \<or> status img = Api_key_missing \<or> status img = Mapping_parse_error
        \<longrightarrow> (\<exists>m. errorMessage img = Some m \<and> m \<noteq> []))"
proof -
  assume "reachable s" "img \<in> set (processedImages s)"
  then have "item_ok img" using reachable_invariants by blast
  then show ?thesis
    by (auto simp: item_ok_def truthy_def suffix_def split: option.splits)
qed

theorem terminal_status_fields_witness:
  "reachable ex_drained \<and>
   ex_a_done \<in> set (processedImages ex_drained) \<and> status ex_a_done = Completed \<and>
   (\<exists>n. suggestedName ex_a_done = Some n \<and> n \<noteq> []) \<and>
   ex_b_failed \<in> set (processedImages ex_drained) \<and> status ex_b_failed = Error \<and>
   (\<exists>m. errorMessage ex_b_failed = Some m \<and> m \<noteq> [])"
proof -
  have a: "ex_a_done \<in> set (processedImages ex_drained)" by (simp add: ex_items_drained)
  have b: "ex_b_failed \<in> set (processedImages ex_drained)" by (simp add: ex_items_drained)
  have sa: "status ex_a_done = Completed" by (simp add: ex_a_done_def)
  have sb: "status ex_b_failed = Error" by (simp add: ex_b_failed_def)
  from terminal_status_fields[OF ex_reachable_drained a] sa
  have ca: "\<exists>n. suggestedName ex_a_done = Some n \<and> n \<noteq> []" by blast
  from terminal_status_fields[OF ex_reachable_drained b] sb
  have cb: "\<exists>m. errorMessage ex_b_failed = Some m \<and> m \<noteq> []" by blast
  from ex_reachable_drained a b sa sb ca cb show ?thesis by blast
qed

subsection \<open>One item at a time\<close>







subsection \<open>The next item\<close>

lemma start_items:
  assumes "distinct (map id_img (processedImages s))" "k < length (processedImages s)"
  shows "\<exists>f. processedImages (processSingleImage_start (processedImages s ! k) ms s)
               = (processedImages s)[k := f (processedImages s ! k)]
           \<and> (status (f (processedImages s ! k)) = Ocr_extracting
              \<or> status (f (processedImages s ! k)) = Api_key_missing
              \<or> status (f (processedImages s ! k)) = Mapping_parse_error)"
proof -
  let ?x = "processedImages s ! k"
  consider "\<not> truthy (apiKey s)" | "truthy (apiKey s)" "ms = []" | "truthy (apiKey s)" "ms \<noteq> []"
    by blast
  then show ?thesis
  proof cases
    case 1
    then show ?thesis
      by (intro exI[of _ "\<lambda>img. img\<lparr>status := Api_key_missing,
                errorMessage := Some ''API Key is missing. OCR skipped.''\<rparr>"])
         (simp add: processSingleImage_start_def start_touches_one[OF assms])
  next
    case 2
    then show ?thesis
      by (intro exI[of _ "\<lambda>img. img\<lparr>status := Mapping_parse_error,
                errorMessage := Some ''No valid mappings loaded. Cannot process.''\<rparr>"])
         (simp add: processSingleImage_start_def start_touches_one[OF assms])
  next
    case 3
    then show ?thesis
      by (intro exI[of _ "\<lambda>img. img\<lparr>status := Ocr_extracting\<rparr>"])
         (simp add: processSingleImage_start_def start_touches_one[OF assms])
  qed
qed

text \<open>
  C7. A run of the processing loop effect in a reachable state in which the run flag is
  set, no item is being processed and no archive is being built takes the first item of
  the list whose status is Queued, whatever else the list holds, and starts processing it:
  only that item changes, and it leaves Queued. When no item is Queued, the step clears
  the run flag.
\<close>

theorem effect_picks_first_queued:
  assumes r: "reachable s" and fl: "startProcessingFlag s"
    and np: "\<not> isCurrentlyProcessingImage s" and nz: "\<not> isZipping s"
  shows
    "((\<exists>img\<in>set (processedImages s). status img = Queued) \<longrightarrow>
        (\<exists>k<length (processedImages s).
           status (processedImages s ! k) = Queued \<and>
           (\<forall>j<k. status (processedImages s ! j) \<noteq> Queued) \<and>
           processing_effect s =
             processSingleImage_start (processedImages s ! k) (manualFilenameMappings s)
               (s\<lparr>isCurrentlyProcessingImage := True\<rparr>) \<and>
           processedImages (processing_effect s) =
             (processedImages s)[k := processedImages (processing_effect s) ! k] \<and>
           (status (processedImages (processing_effect s) ! k) = Ocr_extracting
            \<or> status (processedImages (processing_effect s) ! k) = Api_key_missing
            \<or> status (processedImages (processing_effect s) ! k) = Mapping_parse_error))) \<and>
     ((\<forall>img\<in>set (processedImages s). status img \<noteq> Queued) \<longrightarrow>
        processing_effect s = s\<lparr>startProcessingFlag := False\<rparr>)"
proof (intro conjI impI)
    assume "\<exists>img\<in>set (processedImages s). status img = Queued"
    then obtain nxt where f: "find (\<lambda>img. status img = Queued) (processedImages s) = Some nxt"
      by (cases "find (\<lambda>img. status img = Queued) (processedImages s)") (auto simp: find_None_iff)
    then obtain k where k: "k < length (processedImages s)" "status (processedImages s ! k) = Queued"
      "nxt = processedImages s ! k" "\<forall>j<k. status (processedImages s ! j) \<noteq> Queued"
      by (auto simp: find_Some_iff)
    let ?s1 = "s\<lparr>isCurrentlyProcessingImage := True\<rparr>"
    have e: "processing_effect s = processSingleImage_start nxt (manualFilenameMappings s) ?s1"
      by (rule effect_selects[OF fl np nz f])
    from r have d: "distinct (map id_img (processedImages ?s1))"
      using reachable_invariants by (auto simp: ids_ok_def)
    have k1: "k < length (processedImages ?s1)" using k(1) by simp
    from start_items[OF d k1, of "manualFilenameMappings s"] obtain g where
      g: "processedImages (processSingleImage_start (processedImages s ! k) (manualFilenameMappings s) ?s1)
            = (processedImages s)[k := g (processedImages s ! k)]"
         "status (g (processedImages s ! k)) = Ocr_extracting
            \<or> status (g (processedImages s ! k)) = Api_key_missing
            \<or> status (g (processedImages s ! k)) = Mapping_parse_error"
      by auto
    from g(1) k(1,3) e have nth: "processedImages (processing_effect s) ! k = g (processedImages s ! k)"
      by simp
    show "\<exists>k<length (processedImages s).
           status (processedImages s ! k) = Queued \<and>
           (\<forall>j<k. status (processedImages s ! j) \<noteq> Queued) \<and>
           processing_effect s =
             processSingleImage_start (processedImages s ! k) (manualFilenameMappings s)
               (s\<lparr>isCurrentlyProcessingImage := True\<rparr>) \<and>
           processedImages (processing_effect s) =
             (processedImages s)[k := processedImages (processing_effect s) ! k] \<and>
           (status (processedImages (processing_effect s) ! k) = Ocr_extracting
            \<or> status (processedImages (processing_effect s) ! k) = Api_key_missing
            \<or> status (processedImages (processing_effect s) ! k) = Mapping_parse_error)"
      using k e g nth by (intro exI[of _ k]) simp
next
    assume none: "\<forall>img\<in>set (processedImages s). status img \<noteq> Queued"
    then have f: "find (\<lambda>img. status img = Queued) (processedImages s) = None"
      by (simp add: find_None_iff)
    from r fl have ne: "processedImages s \<noteq> []"
      using reachable_invariants by (auto simp: flag_ok_def)
    show "processing_effect s = s\<lparr>startProcessingFlag := False\<rparr>"
      by (rule effect_idle[OF fl np nz f ne])
qed

theorem effect_picks_first_queued_witness:
  "reachable ex_started \<and> startProcessingFlag ex_started \<and>
   \<not> isCurrentlyProcessingImage ex_started \<and> \<not> isZipping ex_started \<and>
   status (processedImages ex_started ! 0) = Queued \<and>
   status (processedImages ex_started ! 1) = Queued \<and>
   processing_effect ex_started =
     processSingleImage_start (processedImages ex_started ! 0) (manualFilenameMappings ex_started)
       (ex_started\<lparr>isCurrentlyProcessingImage := True\<rparr>) \<and>
   reachable ex_drained \<and> startProcessingFlag ex_drained \<and>
   \<not> isCurrentlyProcessingImage ex_drained \<and> \<not> isZipping ex_drained \<and>
   status ex_a_done \<noteq> Queued \<and> status ex_b_failed \<noteq> Queued \<and>
   processing_effect ex_drained = ex_drained\<lparr>startProcessingFlag := False\<rparr>"
proof -
  have fs: "startProcessingFlag ex_started" "\<not> isCurrentlyProcessingImage ex_started"
    "\<not> isZipping ex_started"
    by (simp_all add: ex_started_def ex_pasted_def ex_loaded_def init_state_def)
  have items: "processedImages ex_started = [ex_a_queued, ex_b_queued]"
    by (simp add: ex_started_def)
  have q: "status ex_a_queued = Queued" "status ex_b_queued = Queued"
    by (simp_all add: ex_a_queued_def ex_b_queued_def)
  have ex: "\<exists>img\<in>set (processedImages ex_started). status img = Queued"
    by (simp add: items q)
  from effect_picks_first_queued[OF ex_reachable_started fs] ex
  obtain k where k: "k < length (processedImages ex_started)"
    "status (processedImages ex_started ! k) = Queued"
    "\<forall>j<k. status (processedImages ex_started ! j) \<noteq> Queued"
    "processing_effect ex_started =
       processSingleImage_start (processedImages ex_started ! k)
         (manualFilenameMappings ex_started) (ex_started\<lparr>isCurrentlyProcessingImage := True\<rparr>)"
    by blast
  have "k = 0"
  proof (rule ccontr)
    assume "k \<noteq> 0"
    then have "0 < k" by simp
    with k(3) have "status (processedImages ex_started ! 0) \<noteq> Queued" by blast
    then show False by (simp add: items q)
  qed
  with k(4) have first: "processing_effect ex_started =
       processSingleImage_start (processedImages ex_started ! 0)
         (manualFilenameMappings ex_started) (ex_started\<lparr>isCurrentlyProcessingImage := True\<rparr>)"
    by simp
  have fd: "startProcessingFlag ex_drained" "\<not> isCurrentlyProcessingImage ex_drained"
    "\<not> isZipping ex_drained"
    by (simp_all add: ex_drained_def ex_second_failed_def ex_second_extracting_def ex_between_def
          ex_first_done_def ex_first_matching_def ex_first_extracting_def ex_started_def
          ex_pasted_def ex_loaded_def init_state_def)
  have nq: "status ex_a_done \<noteq> Queued" "status ex_b_failed \<noteq> Queued"
    by (simp_all add: ex_a_done_def ex_b_failed_def)
  then have none: "\<forall>img\<in>set (processedImages ex_drained). status img \<noteq> Queued"
    by (simp add: ex_items_drained)
  from effect_picks_first_queued[OF ex_reachable_drained fd] none
  have last: "processing_effect ex_drained = ex_drained\<lparr>startProcessingFlag := False\<rparr>" by blast
  from ex_reachable_started fs q first ex_reachable_drained fd nq last show ?thesis
    by (simp add: items)
qed

subsection \<open>Refusing to start\<close>

text \<open>
  The detail of the third reason is taken from the parse message of the state the handler
  was created in: after a text without the required headers, the first start gives the
  general hint and the second quotes the message the first one stored.
\<close>

lemma start_detail_quotes_previous_message:
  "startAttemptErrorMessage
     (handleStartAllProcessing ((init_state (Some ''key''))\<lparr>pastedCustomMappings := ''foo''\<rparr>))
     = Some (msg_no_valid_entries @ msg_check_format) \<and>
   startAttemptErrorMessage
     (handleStartAllProcessing
        (handleStartAllProcessing ((init_state (Some ''key''))\<lparr>pastedCustomMappings := ''foo''\<rparr>)))
     = Some (msg_no_valid_entries @ snd (parseCustomMappings ''foo'')) \<and>
   snd (parseCustomMappings ''foo'') \<noteq> msg_check_format"
  by code_simp

text \<open>
  C8. The start of a run is refused when the key is absent, when the pasted mapping text
  is blank, when the parse gives no entry, and when no item is in a state from which it
  can be retried. The checks are made in this order and the first that fails gives the
  reason; the four reasons differ (the third is a fixed sentence followed by a detail).
  A refusal leaves the run flag and every item as they were. With a key and a blank
  mapping text, any number of starts leaves every item as it was and reports the same
  reason each time.
\<close>

theorem start_all_refusals:
  "(\<not> truthy (apiKey s) \<longrightarrow> refused_with s msg_no_api_key) \<and>
   (truthy (apiKey s) \<and> trim (pastedCustomMappings s) = [] \<longrightarrow>
      refused_with s msg_mapping_empty) \<and>
   (truthy (apiKey s) \<and> trim (pastedCustomMappings s) \<noteq> [] \<and>
    fst (parseCustomMappings (pastedCustomMappings s)) = [] \<longrightarrow>
      (\<exists>detail. refused_with s (msg_no_valid_entries @ detail))) \<and>
   (truthy (apiKey s) \<and> trim (pastedCustomMappings s) \<noteq> [] \<and>
    fst (parseCustomMappings (pastedCustomMappings s)) \<noteq> [] \<and>
    \<not> list_ex (\<lambda>img. eligible (status img)) (processedImages s) \<longrightarrow>
      refused_with s (if processedImages s = [] then msg_no_images else msg_none_pending)) \<and>
   distinct [msg_no_api_key, msg_mapping_empty, msg_no_images, msg_none_pending] \<and>
   (\<forall>detail. msg_no_valid_entries @ detail
      \<notin> {msg_no_api_key, msg_mapping_empty, msg_no_images, msg_none_pending}) \<and>
   (truthy (apiKey s) \<and> trim (pastedCustomMappings s) = [] \<longrightarrow>
      (\<forall>n. processedImages ((handleStartAllProcessing ^^ n) s) = processedImages s \<and>
           startProcessingFlag ((handleStartAllProcessing ^^ n) s) = startProcessingFlag s \<and>
           (0 < n \<longrightarrow> startAttemptErrorMessage ((handleStartAllProcessing ^^ n) s)
                         = Some msg_mapping_empty)))"
proof (intro conjI impI allI)
  show "distinct [msg_no_api_key, msg_mapping_empty, msg_no_images, msg_none_pending]"
    by (rule reasons_distinct)
next
  fix detail
  show "msg_no_valid_entries @ detail
      \<notin> {msg_no_api_key, msg_mapping_empty, msg_no_images, msg_none_pending}"
    by (rule reasons_distinct_entries)
next
  fix n
  assume a: "truthy (apiKey s) \<and> trim (pastedCustomMappings s) = []"
  then have k: "truthy (apiKey s)" and b: "trim (pastedCustomMappings s) = []" by simp_all
  have once: "refused_with s msg_mapping_empty" by (rule start_blank[OF k b])
  show "processedImages ((handleStartAllProcessing ^^ n) s) = processedImages s"
    using once start_blank_funpow[OF k b] by (cases n) (simp_all add: refused_with_def del: funpow.simps)
  show "startProcessingFlag ((handleStartAllProcessing ^^ n) s) = startProcessingFlag s"
    using once start_blank_funpow[OF k b] by (cases n) (simp_all add: refused_with_def del: funpow.simps)
  assume "0 < n"
  then obtain m where "n = Suc m" by (cases n) simp_all
  then show "startAttemptErrorMessage ((handleStartAllProcessing ^^ n) s) = Some msg_mapping_empty"
    using once start_blank_funpow[OF k b] by (simp add: refused_with_def del: funpow.simps)
qed (simp_all add: start_no_key start_blank start_no_entries start_none_eligible)

lemma ex_table_facts:
  "trim ex_table \<noteq> []" "fst (parseCustomMappings ex_table) \<noteq> []"
  "fst (parseCustomMappings ''foo'') = []" "trim ''foo'' \<noteq> []"
  by code_simp+

theorem start_all_refusals_witness:
  "\<not> truthy (apiKey (init_state None)) \<and>
   refused_with (init_state None) msg_no_api_key \<and>
   truthy (apiKey (init_state (Some ''key''))) \<and>
   trim (pastedCustomMappings (init_state (Some ''key''))) = [] \<and>
   refused_with (init_state (Some ''key'')) msg_mapping_empty \<and>
   startAttemptErrorMessage ((handleStartAllProcessing ^^ 3) (init_state (Some ''key'')))
     = Some msg_mapping_empty \<and>
   fst (parseCustomMappings ''foo'') = [] \<and>
   (\<exists>detail. refused_with ((init_state (Some ''key''))\<lparr>pastedCustomMappings := ''foo''\<rparr>)
                (msg_no_valid_entries @ detail)) \<and>
   fst (parseCustomMappings ex_table) \<noteq> [] \<and>
   refused_with ((init_state (Some ''key''))\<lparr>pastedCustomMappings := ex_table\<rparr>) msg_no_images"
proof -
  let ?k = "init_state (Some ''key'')"
  have n: "\<not> truthy (apiKey (init_state None))" by (simp add: init_state_def truthy_def)
  have k: "truthy (apiKey ?k)" by (simp add: init_state_def truthy_def)
  have b: "trim (pastedCustomMappings ?k) = []" by (simp add: init_state_def trim_def)
  have kf: "truthy (apiKey (?k\<lparr>pastedCustomMappings := ''foo''\<rparr>))"
    and kt: "truthy (apiKey (?k\<lparr>pastedCustomMappings := ex_table\<rparr>))"
    using k by simp_all
  have none: "\<not> list_ex (\<lambda>img. eligible (status img))
                  (processedImages (?k\<lparr>pastedCustomMappings := ex_table\<rparr>))"
    and empty: "processedImages (?k\<lparr>pastedCustomMappings := ex_table\<rparr>) = []"
    by (simp_all add: init_state_def)
  from start_all_refusals[of "init_state None"] n
  have r1: "refused_with (init_state None) msg_no_api_key" by blast
  from start_all_refusals[of ?k] k b
  have r2: "refused_with ?k msg_mapping_empty"
    and r2': "startAttemptErrorMessage ((handleStartAllProcessing ^^ 3) ?k) = Some msg_mapping_empty"
    by (blast, simp)
  from start_all_refusals[of "?k\<lparr>pastedCustomMappings := ''foo''\<rparr>"] kf ex_table_facts(3,4)
  have r3: "\<exists>detail. refused_with (?k\<lparr>pastedCustomMappings := ''foo''\<rparr>)
              (msg_no_valid_entries @ detail)" by simp
  from start_all_refusals[of "?k\<lparr>pastedCustomMappings := ex_table\<rparr>"] kt ex_table_facts(1,2)
    none empty
  have r4: "refused_with (?k\<lparr>pastedCustomMappings := ex_table\<rparr>) msg_no_images" by simp
  from n r1 k b r2 r2' ex_table_facts(2,3) r3 r4 show ?thesis by blast
qed

subsection \<open>Starting a run\<close>




subsection \<open>Archive paths\<close>

lemma subfolder_of_size:
  "geometry_ok img \<Longrightarrow>
     subfolder_of (imageType img) =
       (if width img = Some 500 \<and> height img = Some 693 then ''portrait/''
        else if width img = Some 500 \<and> height img = Some 333 then ''landscape/''
        else [])"
  by (auto simp: geometry_ok_def subfolder_of_def type_of_size_def classify_image_def
        split: option.splits)

lemma sanitize_playtech:
  "sanitizeFilename ''Playtech'' ''default_provider'' default_maxLength = ''Playtech''"
  by code_simp

lemma trim_playtech: "trim ''Playtech'' \<noteq> []"
  by code_simp

lemma trim_Nil: "trim [] = []"
  by (simp add: trim_def)

text \<open>
  C3, amended. For every Completed item of a reachable state, the archive entry path is
  the suggested name at the root when the provider is absent or blank, and otherwise the
  sanitized provider, a slash, the subfolder and the suggested name, where the subfolder
  is \<open>portrait/\<close> exactly when the size is 500 by 693, \<open>landscape/\<close> exactly when it is 500
  by 333, and empty otherwise. The sanitizer keeps the case of letters: with provider
  \<open>Playtech\<close> and size 500 by 693 the path is \<open>Playtech/portrait/\<close> followed by the
  suggested name, which ends in \<open>.webp\<close>.
\<close>

theorem archive_path:
  assumes "reachable s" "img \<in> set (processedImages s)" "status img = Completed"
  shows "\<exists>n. suggestedName img = Some n \<and> suffix ''.webp'' n \<and>
           img \<in> set (completedImages (processedImages s)) \<and>
           filePathInZip img =
             Some (case gameProvider img of
                     None \<Rightarrow> n
                   | Some p \<Rightarrow>
                       if trim p = [] then n
                       else sanitizeFilename p ''default_provider'' default_maxLength @ ''/''
                            @ (if width img = Some 500 \<and> height img = Some 693
                               then ''portrait/''
                               else if width img = Some 500 \<and> height img = Some 333
                               then ''landscape/'' else [])
                            @ n) \<and>
           (gameProvider img = Some ''Playtech'' \<and> width img = Some 500 \<and> height img = Some 693
              \<longrightarrow> filePathInZip img = Some (''Playtech/portrait/'' @ n))"
proof -
  from assms(1,2) have ok: "item_ok img" and g: "geometry_ok img"
    using reachable_invariants by blast+
  from ok assms(3) obtain n where n: "suggestedName img = Some n" "suffix ''.webp'' n"
    by (auto simp: item_ok_def)
  then have ne: "n \<noteq> []" by (auto simp: suffix_def)
  have c: "img \<in> set (completedImages (processedImages s))"
    using assms(2,3) n(1) ne by (simp add: completedImages_def truthy_def)
  have path: "filePathInZip img =
             Some (case gameProvider img of
                     None \<Rightarrow> n
                   | Some p \<Rightarrow>
                       if trim p = [] then n
                       else sanitizeFilename p ''default_provider'' default_maxLength @ ''/''
                            @ (if width img = Some 500 \<and> height img = Some 693
                               then ''portrait/''
                               else if width img = Some 500 \<and> height img = Some 333
                               then ''landscape/'' else [])
                            @ n)"
    using n(1) ne subfolder_of_size[OF g]
    by (auto simp: filePathInZip_def trim_Nil split: option.splits)
  have "gameProvider img = Some ''Playtech'' \<and> width img = Some 500 \<and> height img = Some 693
              \<longrightarrow> filePathInZip img = Some (''Playtech/portrait/'' @ n)"
    using path by (simp add: sanitize_playtech trim_playtech)
  with n c path show ?thesis by blast
qed

theorem archive_path_witness:
  "reachable ex_drained \<and> ex_a_done \<in> set (processedImages ex_drained) \<and>
   status ex_a_done = Completed \<and> gameProvider ex_a_done = Some ''Playtech'' \<and>
   width ex_a_done = Some 500 \<and> height ex_a_done = Some 693 \<and>
   suggestedName ex_a_done = Some ''g_1.webp'' \<and>
   filePathInZip ex_a_done = Some ''Playtech/portrait/g_1.webp''"
proof -
  have a: "ex_a_done \<in> set (processedImages ex_drained)" by (simp add: ex_items_drained)
  have f: "status ex_a_done = Completed" "gameProvider ex_a_done = Some ''Playtech''"
    "width ex_a_done = Some 500" "height ex_a_done = Some 693"
    "suggestedName ex_a_done = Some ''g_1.webp''"
    by (simp_all add: ex_a_done_def ex_a_queued_def)
  from archive_path[OF ex_reachable_drained a f(1)] f
  have "filePathInZip ex_a_done = Some ''Playtech/portrait/g_1.webp''" by auto
  with ex_reachable_drained a f show ?thesis by simp
qed

theorem archive_path_lowercase_counterexample:
  "reachable ex_drained \<and> ex_a_done \<in> set (processedImages ex_drained) \<and>
   status ex_a_done = Completed \<and> gameProvider ex_a_done = Some ''Playtech'' \<and>
   width ex_a_done = Some 500 \<and> height ex_a_done = Some 693 \<and>
   suggestedName ex_a_done = Some ''g_1.webp'' \<and>
   filePathInZip ex_a_done \<noteq> Some ''playtech/portrait/g_1.webp''"
proof -
  have a: "ex_a_done \<in> set (processedImages ex_drained)" by (simp add: ex_items_drained)
  have f: "status ex_a_done = Completed" "gameProvider ex_a_done = Some ''Playtech''"
    "width ex_a_done = Some 500" "height ex_a_done = Some 693"
    "suggestedName ex_a_done = Some ''g_1.webp''"
    by (simp_all add: ex_a_done_def ex_a_queued_def)
  have "filePathInZip ex_a_done = Some ''Playtech/portrait/g_1.webp''"
    by (simp add: filePathInZip_def ex_a_done_def ex_a_queued_def sanitize_playtech trim_playtech
          subfolder_of_def)
  then have "filePathInZip ex_a_done \<noteq> Some ''playtech/portrait/g_1.webp''" by simp
  with ex_reachable_drained a f show ?thesis by simp
qed

end
